theory Spec2Isabelle
  imports Complex_Main "HOL-Library.AList"
begin

section \<open>Python values, exceptions and dictionaries\<close>

text \<open>
  The development embeds \<^verbatim>\<open>src/app.py\<close>, a Flask service that routes over a
  risk-weighted road graph. Every \<^verbatim>\<open>raise\<close> of the source is a value \<open>Inl e\<close>; module
  globals and the two \<^verbatim>\<open>lru_cache\<close> memo tables are fields of an explicit state record.
  A Python float is a finite IEEE 754 double, held as the real number it stands for:
  arithmetic rounds the exact result to the nearest double, ties to even. The two zeros
  are one value; NaN and the infinities, and with them operations whose result leaves the
  range of the doubles, are outside the model.
\<close>

datatype py_error =
    AssertionError | AttributeError | KeyError | OverflowError | TypeError | ValueError
  | ZeroDivisionError

text \<open>The result of \<^verbatim>\<open>v ** e\<close> on floats: a float, or a complex number when a negative
  base meets a fractional exponent.\<close>

datatype pynum = PyFloat real | PyComplex

text \<open>A parsed JSON value as \<^verbatim>\<open>request.get_json()\<close> delivers it; an object is the list
  of its items in order.\<close>

datatype jval =
    JNull
  | JBool bool
  | JInt int
  | JFloat real
  | JStr string
  | JArr "jval list"
  | JObj "(string \<times> jval) list"

text \<open>The keys of a dictionary filled from JSON values: \<^verbatim>\<open>None\<close>, a number (\<^verbatim>\<open>True\<close>,
  \<^verbatim>\<open>1\<close> and \<^verbatim>\<open>1.0\<close> are the same key) or a string.\<close>

datatype pykey = KNone | KNum real | KStr string

type_synonym point = "real list"

definition bind_exn :: "'e + 'a \<Rightarrow> ('a \<Rightarrow> 'e + 'b) \<Rightarrow> 'e + 'b" where
  "bind_exn m f = (case m of Inl e \<Rightarrow> Inl e | Inr x \<Rightarrow> f x)"

text \<open>\<^verbatim>\<open>d[k]\<close> on a dictionary held as an insertion-ordered association list; a store
  \<^verbatim>\<open>d[k] = v\<close> is \<^const>\<open>AList.update\<close> (in place for a known key, appended otherwise).\<close>

definition dict_get :: "('k \<times> 'v) list \<Rightarrow> 'k \<Rightarrow> py_error + 'v" where
  "dict_get d k = (case map_of d k of None \<Rightarrow> Inl KeyError | Some v \<Rightarrow> Inr v)"

definition item :: "'v option \<Rightarrow> py_error + 'v" where
  "item field = (case field of None \<Rightarrow> Inl KeyError | Some v \<Rightarrow> Inr v)"

definition dict_update :: "('k \<times> 'v) list \<Rightarrow> ('k \<times> 'v) list \<Rightarrow> ('k \<times> 'v) list" where
  "dict_update d kvs = fold (\<lambda>kv. AList.update (fst kv) (snd kv)) kvs d"

text \<open>\<^verbatim>\<open>functools.lru_cache(maxsize)\<close>: the table is ordered from least to most recently
  used; a hit moves the entry to the end, a miss stores the new entry at the end and drops
  the oldest one when the table is full.\<close>

definition lru_hit :: "'k \<Rightarrow> 'v \<Rightarrow> ('k \<times> 'v) list \<Rightarrow> ('k \<times> 'v) list" where
  "lru_hit k v c = filter (\<lambda>p. fst p \<noteq> k) c @ [(k, v)]"

definition lru_store :: "nat \<Rightarrow> 'k \<Rightarrow> 'v \<Rightarrow> ('k \<times> 'v) list \<Rightarrow> ('k \<times> 'v) list" where
  "lru_store maxsize k v c = (if maxsize \<le> length c then tl c else c) @ [(k, v)]"

subsection \<open>Floats\<close>

definition round_half_even :: "real \<Rightarrow> int" where
  "round_half_even y =
     (let f = \<lfloor>y\<rfloor>; d = y - of_int f in
      if d < 1 / 2 then f
      else if 1 / 2 < d then f + 1
      else if even f then f else f + 1)"

text \<open>The doubles around \<open>x\<close> are the multiples of \<open>ulp x\<close>: 53 significant bits, and
  multiples of \<open>2\<^sup>-\<^sup>1\<^sup>0\<^sup>7\<^sup>4\<close> below the least normal number \<open>2\<^sup>-\<^sup>1\<^sup>0\<^sup>2\<^sup>2\<close>. \<open>fl x\<close> is the
  double nearest to \<open>x\<close>.\<close>

definition float_exponent :: "real \<Rightarrow> int" where
  "float_exponent x = (if x = 0 then - 1022 else max \<lfloor>log 2 \<bar>x\<bar>\<rfloor> (- 1022))"

definition ulp :: "real \<Rightarrow> real" where
  "ulp x = 2 powi (float_exponent x - 52)"

definition fl :: "real \<Rightarrow> real" where
  "fl x = of_int (round_half_even (x / ulp x)) * ulp x"

definition is_float :: "real \<Rightarrow> bool" where
  "is_float y \<longleftrightarrow> (\<exists>n k. y = of_int n * 2 powi k \<and> \<bar>n\<bar> \<le> 2 ^ 53 \<and> - 1074 \<le> k)"

text \<open>\<^verbatim>\<open>a + b\<close>, \<^verbatim>\<open>a - b\<close>, \<^verbatim>\<open>a * b\<close> and \<^verbatim>\<open>a / b\<close> (for \<open>b \<noteq> 0\<close>) on floats.\<close>

definition fadd :: "real \<Rightarrow> real \<Rightarrow> real" where
  "fadd a b = fl (a + b)"

definition fsub :: "real \<Rightarrow> real \<Rightarrow> real" where
  "fsub a b = fl (a - b)"

definition fmul :: "real \<Rightarrow> real \<Rightarrow> real" where
  "fmul a b = fl (a * b)"

definition fdiv :: "real \<Rightarrow> real \<Rightarrow> real" where
  "fdiv a b = fl (a / b)"

text \<open>\<^verbatim>\<open>round(x, ndigits)\<close> on a float: the value of \<open>x\<close> is rounded to \<open>ndigits\<close>
  decimals, ties to even, and the result is the double nearest to that decimal.\<close>

definition py_round :: "real \<Rightarrow> nat \<Rightarrow> real" where
  "py_round x ndigits = fl (of_int (round_half_even (x * 10 ^ ndigits)) / 10 ^ ndigits)"

text \<open>A JSON number used as an operand of float arithmetic: \<^verbatim>\<open>int\<close> and \<^verbatim>\<open>bool\<close> are
  converted, other values are no numbers.\<close>

definition as_float :: "jval \<Rightarrow> py_error + real" where
  "as_float v =
     (case v of
        JBool b \<Rightarrow> Inr (if b then 1 else 0)
      | JInt i \<Rightarrow> if 2 ^ 1024 \<le> \<bar>fl (of_int i)\<bar> then Inl OverflowError else Inr (fl (of_int i))
      | JFloat r \<Rightarrow> Inr r
      | _ \<Rightarrow> Inl TypeError)"

text \<open>\<^verbatim>\<open>v ** w\<close> on floats. The power function of the C library is taken as correctly
  rounded.\<close>

definition py_pow :: "real \<Rightarrow> real \<Rightarrow> py_error + pynum" where
  "py_pow v w =
     (if w = 0 then Inr (PyFloat 1)
      else if v = 0 then (if w < 0 then Inl ZeroDivisionError else Inr (PyFloat 0))
      else if v < 0 \<and> of_int \<lfloor>w\<rfloor> \<noteq> w then Inr PyComplex
      else
        (let r = fl (if 0 < v then v powr w else v powi \<lfloor>w\<rfloor>)
         in if 2 ^ 1024 \<le> \<bar>r\<bar> then Inl OverflowError else Inr (PyFloat r)))"

text \<open>\<^verbatim>\<open>w * x\<close> for a configured weight \<open>w\<close>, and \<^verbatim>\<open>x + y\<close>.\<close>

definition py_mul :: "jval \<Rightarrow> pynum \<Rightarrow> py_error + pynum" where
  "py_mul w x =
     bind_exn (as_float w) (\<lambda>a.
       Inr (case x of PyFloat b \<Rightarrow> PyFloat (fmul a b) | PyComplex \<Rightarrow> PyComplex))"

definition py_add :: "pynum \<Rightarrow> pynum \<Rightarrow> pynum" where
  "py_add x y =
     (case (x, y) of (PyFloat a, PyFloat b) \<Rightarrow> PyFloat (fadd a b) | _ \<Rightarrow> PyComplex)"

text \<open>\<^verbatim>\<open>math.dist(p, q)\<close>: the coordinate differences are float subtractions; the norm of
  the differences is taken as correctly rounded.\<close>

definition math_dist :: "point \<Rightarrow> point \<Rightarrow> py_error + real" where
  "math_dist p q =
     (if length p \<noteq> length q then Inl ValueError
      else Inr (fl (sqrt (sum_list (map (\<lambda>ab. (fsub (fst ab) (snd ab))\<^sup>2) (zip p q))))))"

section \<open>Configuration\<close>

definition DEFAULT_SPEED_KMPH :: real where
  "DEFAULT_SPEED_KMPH = 30"

definition GRAPH_CACHE_TTL :: real where
  "GRAPH_CACHE_TTL = 300"

definition MAX_SNAP_DISTANCE :: real where
  "MAX_SNAP_DISTANCE = fl (2 / 100)"

definition VALID_ROUTE_TYPES :: "string list" where
  "VALID_ROUTE_TYPES = [''shortest'', ''safest'', ''balanced'']"

definition initial_RISK_CONFIG :: "(pykey \<times> jval) list" where
  "initial_RISK_CONFIG =
     [(KStr ''crime_weight'', JFloat (fl (6 / 10))),
      (KStr ''lighting_weight'', JFloat (fl (15 / 100))),
      (KStr ''crowd_weight'', JFloat (fl (15 / 100))),
      (KStr ''nonlinear_exponent'', JFloat (fl (13 / 10)))]"

section \<open>Dataset, graph and process state\<close>

text \<open>One element of \<^verbatim>\<open>data["segments"]\<close>: a JSON object in which each of the six
  recognised keys is present (\<open>Some\<close>) or absent (\<open>None\<close>); \<^verbatim>\<open>k in s\<close> is
  \<open>field \<noteq> None\<close>. The keys \<^verbatim>\<open>id\<close>, \<^verbatim>\<open>start\<close>, \<^verbatim>\<open>end\<close>, \<^verbatim>\<open>crime\<close>,
  \<^verbatim>\<open>lighting\<close>, \<^verbatim>\<open>crowd\<close> carry the prefix \<open>seg_\<close>. The id is a string, the end points
  are lists of floats of any length, the three scores are floats.\<close>

record segment =
  seg_id :: "string option"
  seg_start :: "point option"
  seg_end :: "point option"
  seg_crime :: "real option"
  seg_lighting :: "real option"
  seg_crowd :: "real option"

text \<open>What \<^verbatim>\<open>open\<close>, \<^verbatim>\<open>json.load\<close> and \<^verbatim>\<open>data["segments"]\<close> yield: an exception, or
  the list of segment objects.\<close>

datatype dataset_file = Unreadable py_error | Parsed "segment list"

record edge_attrs =
  eta :: real
  risk :: real
  weight :: real
  geometry :: "point list"
  segment_id :: string

text \<open>\<^verbatim>\<open>nx.DiGraph\<close>: the nodes in insertion order, and one attribute dictionary per
  ordered pair of nodes.\<close>

record graph =
  nodes :: "point list"
  edges :: "((point \<times> point) \<times> edge_attrs) list"

record state =
  RISK_CONFIG :: "(pykey \<times> jval) list"
  DATASET_TIMESTAMP :: real
  SEGMENTS_BY_ID :: "(string \<times> segment) list"
  SEGMENT_DISTANCES :: "(string \<times> real) list"
  LAST_CACHE_CLEAR :: real
  REQUESTS :: "(string \<times> real list) list"
  calculate_risk_cache :: "((string \<times> int) \<times> real) list"
  build_graph_cache :: "((int \<times> real \<times> real) \<times> graph) list"

definition calculate_risk_cache_clear :: "state \<Rightarrow> state" where
  "calculate_risk_cache_clear st = st\<lparr>calculate_risk_cache := []\<rparr>"

definition build_graph_cache_clear :: "state \<Rightarrow> state" where
  "build_graph_cache_clear st = st\<lparr>build_graph_cache := []\<rparr>"

subsection \<open>Loading the dataset\<close>

definition has_required_keys :: "segment \<Rightarrow> bool" where
  "has_required_keys s \<longleftrightarrow>
     seg_id s \<noteq> None \<and> seg_start s \<noteq> None \<and> seg_end s \<noteq> None \<and>
     seg_crime s \<noteq> None \<and> seg_lighting s \<noteq> None \<and> seg_crowd s \<noteq> None"

definition validate_dataset_schema :: "segment list \<Rightarrow> py_error + unit" where
  "validate_dataset_schema segs =
     (if list_all has_required_keys segs then Inr () else Inl AssertionError)"

text \<open>The loop of \<^verbatim>\<open>load_dataset\<close> over the two global dictionaries. An exception stops
  it where it stands: the dictionaries keep what was written so far.\<close>

fun load_segments ::
  "segment list \<Rightarrow> (string \<times> segment) list \<Rightarrow> (string \<times> real) list \<Rightarrow>
   py_error option \<times> (string \<times> segment) list \<times> (string \<times> real) list" where
  "load_segments [] by_id dists = (None, by_id, dists)"
| "load_segments (s # ss) by_id dists =
     (case seg_id s of
        None \<Rightarrow> (Some KeyError, by_id, dists)
      | Some i \<Rightarrow>
          (let by_id' = AList.update i s by_id in
           case bind_exn (item (seg_start s)) (\<lambda>a.
                bind_exn (item (seg_end s)) (\<lambda>b. math_dist a b)) of
             Inl e \<Rightarrow> (Some e, by_id', dists)
           | Inr d \<Rightarrow> load_segments ss by_id' (AList.update i d dists)))"

text \<open>\<^verbatim>\<open>load_dataset\<close> returns nothing and catches every exception itself; the first
  component is the exception whose traceback it printed, if any.\<close>

definition load_dataset :: "state \<Rightarrow> real \<Rightarrow> dataset_file \<Rightarrow> py_error option \<times> state" where
  "load_dataset st now file =
     (case file of
        Unreadable e \<Rightarrow> (Some e, st)
      | Parsed segs \<Rightarrow>
          (case validate_dataset_schema segs of
             Inl e \<Rightarrow> (Some e, st)
           | Inr _ \<Rightarrow>
               (case load_segments segs [] [] of
                  (Some e, by_id, dists) \<Rightarrow>
                    (Some e, st\<lparr>SEGMENTS_BY_ID := by_id, SEGMENT_DISTANCES := dists\<rparr>)
                | (None, by_id, dists) \<Rightarrow>
                    (None, st\<lparr>SEGMENTS_BY_ID := by_id, SEGMENT_DISTANCES := dists,
                       DATASET_TIMESTAMP := now\<rparr>))))"

section \<open>Risk\<close>

definition nonlinear :: "(pykey \<times> jval) list \<Rightarrow> real \<Rightarrow> py_error + pynum" where
  "nonlinear cfg v =
     bind_exn (dict_get cfg (KStr ''nonlinear_exponent'')) (\<lambda>e.
     bind_exn (as_float e) (\<lambda>w. py_pow v w))"

text \<open>The argument of \<^verbatim>\<open>round\<close> is the exact value of \<open>1 + 0.2 tanh((hour - 20) / 2)\<close>,
  from which the float that Python computes differs by less than \<open>10\<^sup>-\<^sup>1\<^sup>5\<close>; for the hours
  from 20 on the value stays more than 0.002 away from the next number with a 5 in the
  third decimal place, so both round to the same two decimals.\<close>

definition time_multiplier :: "int \<Rightarrow> real" where
  "time_multiplier hour =
     (if hour < 20 then 1
      else py_round (1 + 2 / 10 * tanh (of_int (hour - 20) / 2)) 2)"

text \<open>\<^verbatim>\<open>round(base * time_multiplier(hour), 2)\<close>: a complex \<^verbatim>\<open>base\<close> has no
  \<^verbatim>\<open>__round__\<close>.\<close>

definition round_base :: "pynum \<Rightarrow> int \<Rightarrow> py_error + real" where
  "round_base base hour =
     (case base of
        PyFloat b \<Rightarrow> Inr (py_round (fmul b (time_multiplier hour)) 2)
      | PyComplex \<Rightarrow> Inl TypeError)"

text \<open>The body of \<^verbatim>\<open>calculate_risk\<close>, without its memo table, in the order in which
  Python evaluates it.\<close>

definition calculate_risk_wrapped ::
  "(pykey \<times> jval) list \<Rightarrow> (string \<times> segment) list \<Rightarrow> string \<Rightarrow> int \<Rightarrow> py_error + real" where
  "calculate_risk_wrapped cfg by_id sid hour =
     bind_exn (dict_get by_id sid) (\<lambda>s.
     bind_exn (item (seg_crime s)) (\<lambda>c.
     bind_exn (nonlinear cfg c) (\<lambda>crime.
     bind_exn (item (seg_lighting s)) (\<lambda>l.
     bind_exn (nonlinear cfg (fsub 1 l)) (\<lambda>lighting_deficit.
     bind_exn (item (seg_crowd s)) (\<lambda>cr.
     bind_exn (nonlinear cfg (fsub 1 cr)) (\<lambda>crowd_scarcity.
     bind_exn (dict_get cfg (KStr ''crime_weight'')) (\<lambda>cw.
     bind_exn (py_mul cw crime) (\<lambda>x.
     bind_exn (dict_get cfg (KStr ''lighting_weight'')) (\<lambda>lw.
     bind_exn (py_mul lw lighting_deficit) (\<lambda>y.
     bind_exn (dict_get cfg (KStr ''crowd_weight'')) (\<lambda>crw.
     bind_exn (py_mul crw crowd_scarcity) (\<lambda>z.
       round_base (py_add (py_add x y) z) hour)))))))))))))"

text \<open>\<^verbatim>\<open>@lru_cache(maxsize=2000) def calculate_risk(segment_id, hour)\<close>.\<close>

definition calculate_risk :: "state \<Rightarrow> string \<Rightarrow> int \<Rightarrow> (py_error + real) \<times> state" where
  "calculate_risk st sid hour =
     (case map_of (calculate_risk_cache st) (sid, hour) of
        Some v \<Rightarrow>
          (Inr v, st\<lparr>calculate_risk_cache := lru_hit (sid, hour) v (calculate_risk_cache st)\<rparr>)
      | None \<Rightarrow>
          (case calculate_risk_wrapped (RISK_CONFIG st) (SEGMENTS_BY_ID st) sid hour of
             Inl e \<Rightarrow> (Inl e, st)
           | Inr v \<Rightarrow>
               (Inr v, st\<lparr>calculate_risk_cache :=
                  lru_store 2000 (sid, hour) v (calculate_risk_cache st)\<rparr>)))"

section \<open>ETA and cache expiry\<close>

definition compute_eta :: "real \<Rightarrow> real \<Rightarrow> py_error + real" where
  "compute_eta distance_km speed =
     (if speed = 0 then Inl ZeroDivisionError
      else Inr (py_round (fmul (fdiv distance_km speed) 60) 2))"

definition auto_clear_cache :: "state \<Rightarrow> real \<Rightarrow> state" where
  "auto_clear_cache st now =
     (if GRAPH_CACHE_TTL < fsub now (LAST_CACHE_CLEAR st)
      then (build_graph_cache_clear (calculate_risk_cache_clear st))\<lparr>LAST_CACHE_CLEAR := now\<rparr>
      else st)"

section \<open>Graph\<close>

definition add_node :: "point list \<Rightarrow> point \<Rightarrow> point list" where
  "add_node ns n = (if n \<in> set ns then ns else ns @ [n])"

definition add_edge :: "graph \<Rightarrow> point \<Rightarrow> point \<Rightarrow> edge_attrs \<Rightarrow> graph" where
  "add_edge G u v attrs =
     \<lparr>nodes = add_node (add_node (nodes G) u) v,
      edges = AList.update (u, v) attrs (edges G)\<rparr>"

text \<open>The keyword arguments of \<^verbatim>\<open>G.add_edge\<close> in \<^verbatim>\<open>build_graph\<close>.\<close>

definition edge_for :: "real \<Rightarrow> string \<Rightarrow> point \<Rightarrow> point \<Rightarrow> real \<Rightarrow> real \<Rightarrow> edge_attrs" where
  "edge_for alpha sid a b r e =
     \<lparr>eta = e, risk = r, weight = fadd (fmul alpha e) (fmul (fsub 1 alpha) r),
      geometry = [a, b], segment_id = sid\<rparr>"

text \<open>The \<^verbatim>\<open>for sid, seg in SEGMENTS_BY_ID.items()\<close> loop of \<^verbatim>\<open>build_graph\<close>; the state is
  threaded because \<^verbatim>\<open>calculate_risk\<close> fills its memo table.\<close>

fun build_graph_loop ::
  "int \<Rightarrow> real \<Rightarrow> (string \<times> segment) list \<Rightarrow> graph \<Rightarrow> state \<Rightarrow> (py_error + graph) \<times> state" where
  "build_graph_loop hour alpha [] G st = (Inr G, st)"
| "build_graph_loop hour alpha (entry # items) G st =
     (case bind_exn (item (seg_start (snd entry))) (\<lambda>a.
           bind_exn (item (seg_end (snd entry))) (\<lambda>b. Inr (a, b))) of
        Inl e \<Rightarrow> (Inl e, st)
      | Inr ab \<Rightarrow>
          (case calculate_risk st (fst entry) hour of
             (Inl e, st') \<Rightarrow> (Inl e, st')
           | (Inr r, st') \<Rightarrow>
               (case bind_exn (dict_get (SEGMENT_DISTANCES st') (fst entry)) (\<lambda>d.
                     compute_eta d DEFAULT_SPEED_KMPH) of
                  Inl e \<Rightarrow> (Inl e, st')
                | Inr e \<Rightarrow>
                    build_graph_loop hour alpha items
                      (add_edge G (fst ab) (snd ab)
                         (edge_for alpha (fst entry) (fst ab) (snd ab) r e)) st')))"

text \<open>The body of \<^verbatim>\<open>build_graph\<close>, without its memo table.\<close>

definition build_graph_wrapped ::
  "state \<Rightarrow> int \<Rightarrow> real \<Rightarrow> real \<Rightarrow> (py_error + graph) \<times> state" where
  "build_graph_wrapped st hour alpha dataset_ts =
     build_graph_loop hour alpha (SEGMENTS_BY_ID st) \<lparr>nodes = [], edges = []\<rparr> st"

text \<open>\<^verbatim>\<open>@lru_cache(maxsize=200) def build_graph(hour, alpha, dataset_ts)\<close>.\<close>

definition build_graph :: "state \<Rightarrow> int \<Rightarrow> real \<Rightarrow> real \<Rightarrow> (py_error + graph) \<times> state" where
  "build_graph st hour alpha dataset_ts =
     (case map_of (build_graph_cache st) (hour, alpha, dataset_ts) of
        Some G \<Rightarrow>
          (Inr G, st\<lparr>build_graph_cache :=
             lru_hit (hour, alpha, dataset_ts) G (build_graph_cache st)\<rparr>)
      | None \<Rightarrow>
          (case build_graph_wrapped st hour alpha dataset_ts of
             (Inl e, st') \<Rightarrow> (Inl e, st')
           | (Inr G, st') \<Rightarrow>
               (Inr G, st'\<lparr>build_graph_cache :=
                  lru_store 200 (hour, alpha, dataset_ts) G (build_graph_cache st')\<rparr>)))"

section \<open>Nearest node\<close>

text \<open>\<^verbatim>\<open>min(G.nodes, key=...)\<close>: the key of every node is computed in order, a later
  node replaces the best one only when its key is strictly smaller.\<close>

fun min_by_dist :: "point \<Rightarrow> point \<Rightarrow> real \<Rightarrow> point list \<Rightarrow> py_error + point" where
  "min_by_dist pt best bk [] = Inr best"
| "min_by_dist pt best bk (n # ns) =
     (case math_dist n pt of
        Inl e \<Rightarrow> Inl e
      | Inr k \<Rightarrow> if k < bk then min_by_dist pt n k ns else min_by_dist pt best bk ns)"

text \<open>The second component of the result tells whether the warning
  \<^verbatim>\<open>Snapping far point for demo\<close> was logged.\<close>

definition nearest_node :: "graph \<Rightarrow> point \<Rightarrow> py_error + point \<times> bool" where
  "nearest_node G pt =
     (case nodes G of
        [] \<Rightarrow> Inl ValueError
      | n # ns \<Rightarrow>
          bind_exn (math_dist n pt) (\<lambda>k.
          bind_exn (min_by_dist pt n k ns) (\<lambda>closest.
          bind_exn (math_dist closest pt) (\<lambda>d.
            Inr (closest, MAX_SNAP_DISTANCE < d)))))"

section \<open>Routing\<close>

text \<open>What \<^verbatim>\<open>nx.astar_path\<close> can do: return a path, raise \<^verbatim>\<open>NetworkXNoPath\<close>, or raise
  another exception. The search itself belongs to the networkx library and is a parameter
  \<open>astar\<close> of the routing functions.\<close>

datatype search_result = Path "point list" | NetworkXNoPath | OtherException

type_synonym search = "graph \<Rightarrow> point \<Rightarrow> point \<Rightarrow> search_result"

record route =
  route_path :: "point list"
  route_eta :: real
  route_risk :: real
  route_confidence :: real
  route_geometry :: "point list list option"
  route_warning :: "string option"

text \<open>The loop \<^verbatim>\<open>for i in range(len(path) - 1)\<close> with its three accumulators.\<close>

fun sum_path ::
  "graph \<Rightarrow> point list \<Rightarrow> real \<times> real \<times> point list list \<Rightarrow>
   py_error + real \<times> real \<times> point list list" where
  "sum_path G (u # v # rest) acc =
     (case map_of (edges G) (u, v) of
        None \<Rightarrow> Inl KeyError
      | Some edge \<Rightarrow>
          sum_path G (v # rest)
            (fadd (fst acc) (eta edge), fadd (fst (snd acc)) (risk edge),
             snd (snd acc) @ [geometry edge]))"
| "sum_path G path acc = Inr acc"

text \<open>The dictionary returned for a path of one vertex.\<close>

definition close_warning :: "point list \<Rightarrow> route" where
  "close_warning path =
     \<lparr>route_path = path, route_eta = 0, route_risk = 0, route_confidence = 1,
      route_geometry = None,
      route_warning = Some ''Origin and destination are extremely close''\<rparr>"

definition assemble_route :: "graph \<Rightarrow> point list \<Rightarrow> py_error + route" where
  "assemble_route G path =
     (if length path = 1 then Inr (close_warning path)
      else
        bind_exn (sum_path G path (0, 0, [])) (\<lambda>acc.
          (let segments_count = max (int (length path) - 1) 1;
               normalized_risk = py_round (fdiv (fst (snd acc)) (of_int segments_count)) 2
           in if fadd 1 normalized_risk = 0 then Inl ZeroDivisionError
              else Inr \<lparr>route_path = path, route_eta = py_round (fst acc) 2,
                        route_risk = normalized_risk,
                        route_confidence = py_round (fdiv 1 (fadd 1 normalized_risk)) 2,
                        route_geometry = Some (snd (snd acc)),
                        route_warning = None\<rparr>)))"

text \<open>The graph \<^verbatim>\<open>G\<close> that \<^verbatim>\<open>compute_route\<close> works on: its first two statements.\<close>

definition route_graph :: "state \<Rightarrow> real \<Rightarrow> int \<Rightarrow> real \<Rightarrow> (py_error + graph) \<times> state" where
  "route_graph st now hour alpha =
     (let st1 = auto_clear_cache st now
      in build_graph st1 hour alpha (DATASET_TIMESTAMP st1))"

text \<open>\<^verbatim>\<open>compute_route\<close> from the two \<^verbatim>\<open>nearest_node\<close> calls up to the call of
  \<^verbatim>\<open>nx.astar_path\<close>: either it has returned one of its two early results, or it calls
  the search with a source and a target vertex.\<close>

datatype search_call = Returned "route option \<times> string option" | Search point point

definition before_search :: "graph \<Rightarrow> point \<Rightarrow> point \<Rightarrow> py_error + search_call" where
  "before_search G origin destination =
     bind_exn (nearest_node G origin) (\<lambda>origin_node.
     bind_exn (nearest_node G destination) (\<lambda>dest_node.
       if fst origin_node = []
         then Inr (Returned (None, Some ''Origin too far from known roads''))
       else if fst dest_node = []
         then Inr (Returned (None, Some ''Destination too far from known roads''))
       else Inr (Search (fst origin_node) (fst dest_node))))"

text \<open>What \<^verbatim>\<open>compute_route\<close> makes of the outcome of the search.\<close>

definition after_search :: "graph \<Rightarrow> search_result \<Rightarrow> py_error + route option \<times> string option" where
  "after_search G found =
     (case found of
        NetworkXNoPath \<Rightarrow> Inr (None, Some ''No route available'')
      | OtherException \<Rightarrow> Inr (None, Some ''Routing failure'')
      | Path path \<Rightarrow> bind_exn (assemble_route G path) (\<lambda>r. Inr (Some r, None)))"

text \<open>The rest of \<^verbatim>\<open>compute_route\<close>, from the two \<^verbatim>\<open>nearest_node\<close> calls on. The result
  is the pair \<^verbatim>\<open>(route, error message)\<close> of the source.\<close>

definition route_on ::
  "search \<Rightarrow> graph \<Rightarrow> point \<Rightarrow> point \<Rightarrow> py_error + route option \<times> string option" where
  "route_on astar G origin destination =
     bind_exn (before_search G origin destination) (\<lambda>call.
       case call of
         Returned result \<Rightarrow> Inr result
       | Search s t \<Rightarrow> after_search G (astar G s t))"

definition compute_route ::
  "search \<Rightarrow> state \<Rightarrow> real \<Rightarrow> point \<Rightarrow> point \<Rightarrow> int \<Rightarrow> real \<Rightarrow>
   (py_error + route option \<times> string option) \<times> state" where
  "compute_route astar st now origin destination hour alpha =
     (case route_graph st now hour alpha of
        (Inl e, st') \<Rightarrow> (Inl e, st')
      | (Inr G, st') \<Rightarrow> (route_on astar G origin destination, st'))"

section \<open>Rate limit and HTTP handlers\<close>

definition rate_limit :: "state \<Rightarrow> string \<Rightarrow> real \<Rightarrow> bool \<times> state" where
  "rate_limit st ip now =
     (let old = (case map_of (REQUESTS st) ip of None \<Rightarrow> [] | Some ts \<Rightarrow> ts);
          recent = filter (\<lambda>t. fsub now t < 60) old
      in if 30 \<le> length recent
         then (False, st\<lparr>REQUESTS := AList.update ip recent (REQUESTS st)\<rparr>)
         else (True, st\<lparr>REQUESTS := AList.update ip (recent @ [now]) (REQUESTS st)\<rparr>))"

datatype payload = Message string | RouteData "route option" string real

text \<open>\<^verbatim>\<open>success(data)\<close>, \<^verbatim>\<open>error(code, message)\<close>, or an exception that leaves the
  handler.\<close>

datatype response = Success payload | Error nat string | Unhandled py_error

text \<open>\<^verbatim>\<open>/reload_data\<close>. \<^verbatim>\<open>load_dataset\<close> raises nothing, so the \<^verbatim>\<open>except\<close> branch of
  the handler has no counterpart.\<close>

definition reload_data :: "state \<Rightarrow> real \<Rightarrow> dataset_file \<Rightarrow> response \<times> state" where
  "reload_data st now file =
     (let st1 = snd (load_dataset st now file)
      in (Success (Message ''Dataset reloaded''),
          build_graph_cache_clear (calculate_risk_cache_clear st1)))"

subsection \<open>The configuration endpoint\<close>

text \<open>\<^verbatim>\<open>hash(k)\<close> for a key: lists and dictionaries are unhashable.\<close>

definition key_of :: "jval \<Rightarrow> py_error + pykey" where
  "key_of k =
     (case k of
        JNull \<Rightarrow> Inr KNone
      | JBool b \<Rightarrow> Inr (KNum (if b then 1 else 0))
      | JInt i \<Rightarrow> Inr (KNum (of_int i))
      | JFloat r \<Rightarrow> Inr (KNum r)
      | JStr s \<Rightarrow> Inr (KStr s)
      | _ \<Rightarrow> Inl TypeError)"

text \<open>One element of the sequence given to \<^verbatim>\<open>dict.update\<close>, read as a key and a value:
  it must be iterable and yield two items. A list yields its elements, a string its
  characters, a dictionary its keys.\<close>

definition pair_of :: "jval \<Rightarrow> py_error + pykey \<times> jval" where
  "pair_of x =
     (case x of
        JArr [k, v] \<Rightarrow> bind_exn (key_of k) (\<lambda>key. Inr (key, v))
      | JArr _ \<Rightarrow> Inl ValueError
      | JStr [c, d] \<Rightarrow> Inr (KStr [c], JStr [d])
      | JStr _ \<Rightarrow> Inl ValueError
      | JObj [kv, kv'] \<Rightarrow> Inr (KStr (fst kv), JStr (fst kv'))
      | JObj _ \<Rightarrow> Inl ValueError
      | _ \<Rightarrow> Inl TypeError)"

text \<open>The loop of \<^verbatim>\<open>dict.update\<close> over a sequence: each element is stored as soon as it
  is read, and an element that is no pair stops the loop with what was stored so far.\<close>

fun update_pairs ::
  "(pykey \<times> jval) list \<Rightarrow> jval list \<Rightarrow> py_error option \<times> (pykey \<times> jval) list" where
  "update_pairs d [] = (None, d)"
| "update_pairs d (x # xs) =
     (case pair_of x of
        Inl e \<Rightarrow> (Some e, d)
      | Inr kv \<Rightarrow> update_pairs (AList.update (fst kv) (snd kv) d) xs)"

text \<open>\<^verbatim>\<open>d.update(data)\<close> for a parsed JSON value: an object is merged item by item, an
  array or a string is a sequence of pairs, anything else is not iterable. The first
  component is the exception raised, if any; the second is the dictionary as the call
  leaves it.\<close>

definition py_update ::
  "(pykey \<times> jval) list \<Rightarrow> jval \<Rightarrow> py_error option \<times> (pykey \<times> jval) list" where
  "py_update d data =
     (case data of
        JObj kvs \<Rightarrow> (None, dict_update d (map (\<lambda>kv. (KStr (fst kv), snd kv)) kvs))
      | JArr xs \<Rightarrow> update_pairs d xs
      | JStr s \<Rightarrow> update_pairs d (map (\<lambda>c. JStr [c]) s)
      | _ \<Rightarrow> (Some TypeError, d))"

text \<open>\<^verbatim>\<open>/config_risk\<close>. The body is \<open>None\<close> when \<^verbatim>\<open>request.get_json()\<close> raises. The bare
  \<^verbatim>\<open>except\<close> answers every exception with status 400, also one that \<^verbatim>\<open>update\<close> raises
  after it has stored some keys.\<close>

definition config_risk :: "state \<Rightarrow> jval option \<Rightarrow> response \<times> state" where
  "config_risk st body =
     (case body of
        None \<Rightarrow> (Error 400 ''Invalid config payload'', st)
      | Some data \<Rightarrow>
          (case py_update (RISK_CONFIG st) data of
             (Some e, cfg) \<Rightarrow> (Error 400 ''Invalid config payload'', st\<lparr>RISK_CONFIG := cfg\<rparr>)
           | (None, cfg) \<Rightarrow>
               (Success (Message ''Risk config updated''),
                calculate_risk_cache_clear (st\<lparr>RISK_CONFIG := cfg\<rparr>))))"

subsection \<open>Request validation\<close>

definition num_of :: "jval \<Rightarrow> real option" where
  "num_of v =
     (case v of
        JBool b \<Rightarrow> Some (if b then 1 else 0)
      | JInt i \<Rightarrow> Some (of_int i)
      | JFloat r \<Rightarrow> Some r
      | _ \<Rightarrow> None)"

definition int_of :: "jval \<Rightarrow> int option" where
  "int_of v =
     (case v of
        JBool b \<Rightarrow> Some (if b then 1 else 0)
      | JInt i \<Rightarrow> Some i
      | _ \<Rightarrow> None)"

definition valid_coords :: "jval \<Rightarrow> bool" where
  "valid_coords c =
     (case c of
        JArr [lat, lon] \<Rightarrow>
          (case (num_of lat, num_of lon) of
             (Some x, Some y) \<Rightarrow> - 90 \<le> x \<and> x \<le> 90 \<and> - 180 \<le> y \<and> y \<le> 180
           | _ \<Rightarrow> False)
      | _ \<Rightarrow> False)"

definition valid_hour :: "jval \<Rightarrow> bool" where
  "valid_hour h = (case int_of h of Some i \<Rightarrow> 0 \<le> i \<and> i \<le> 23 | None \<Rightarrow> False)"

definition valid_alpha :: "jval \<Rightarrow> bool" where
  "valid_alpha a = (case num_of a of Some x \<Rightarrow> 0 \<le> x \<and> x \<le> 1 | None \<Rightarrow> False)"

text \<open>\<^verbatim>\<open>tuple(c)\<close> for a value that passed \<^const>\<open>valid_coords\<close>.\<close>

definition coords_tuple :: "jval \<Rightarrow> point" where
  "coords_tuple c = (case c of JArr xs \<Rightarrow> map (\<lambda>x. case num_of x of Some r \<Rightarrow> r | None \<Rightarrow> 0) xs | _ \<Rightarrow> [])"

definition hashable :: "jval \<Rightarrow> bool" where
  "hashable v = (case v of JArr _ \<Rightarrow> False | JObj _ \<Rightarrow> False | _ \<Rightarrow> True)"

definition is_route_type :: "jval \<Rightarrow> bool" where
  "is_route_type v = (case v of JStr s \<Rightarrow> s \<in> set VALID_ROUTE_TYPES | _ \<Rightarrow> False)"

definition get_or :: "(string \<rightharpoonup> jval) \<Rightarrow> string \<Rightarrow> jval \<Rightarrow> jval" where
  "get_or data k dflt = (case data k of None \<Rightarrow> dflt | Some v \<Rightarrow> v)"

definition preset_alpha :: "jval \<Rightarrow> jval \<Rightarrow> real" where
  "preset_alpha route_type alpha =
     (if route_type = JStr ''shortest'' then 1
      else if route_type = JStr ''safest'' then 0
      else (case num_of alpha of Some x \<Rightarrow> x | None \<Rightarrow> 0))"

definition strategy_name :: "jval \<Rightarrow> string" where
  "strategy_name v = (case v of JStr s \<Rightarrow> s | _ \<Rightarrow> [])"

text \<open>\<^verbatim>\<open>if err:\<close> on a value that is \<^verbatim>\<open>None\<close> or a string.\<close>

definition truthy :: "string option \<Rightarrow> bool" where
  "truthy err = (case err of None \<Rightarrow> False | Some s \<Rightarrow> s \<noteq> [])"

definition the_default :: "'a \<Rightarrow> 'a option \<Rightarrow> 'a" where
  "the_default d x = (case x of None \<Rightarrow> d | Some v \<Rightarrow> v)"

text \<open>The text of \<^verbatim>\<open>f"Invalid type {VALID_ROUTE_TYPES}"\<close>: the set is printed with its
  members in quotes. Python fixes the order in which a set of strings is printed anew
  for every process; the members appear here in the order of the source.\<close>

definition quoted :: "string \<Rightarrow> string" where
  "quoted s = CHR 0x27 # s @ [CHR 0x27]"

fun separated :: "string list \<Rightarrow> string" where
  "separated [] = []"
| "separated [s] = s"
| "separated (s # t # ss) = s @ '', '' @ separated (t # ss)"

definition set_repr :: "string list \<Rightarrow> string" where
  "set_repr members = ''{'' @ separated (map quoted members) @ ''}''"

definition invalid_type_message :: string where
  "invalid_type_message = ''Invalid type '' @ set_repr VALID_ROUTE_TYPES"

text \<open>\<^verbatim>\<open>/get_routes\<close>, after the rate limit and the parse of the body, for a body that
  is a JSON object, given as the map from its keys to their values.\<close>

definition handle_query ::
  "search \<Rightarrow> state \<Rightarrow> real \<Rightarrow> (string \<rightharpoonup> jval) \<Rightarrow> response \<times> state" where
  "handle_query astar st now data =
     (let origin = get_or data ''origin'' JNull;
          destination = get_or data ''destination'' JNull;
          hour = get_or data ''hour'' (JInt 22);
          alpha = get_or data ''alpha'' (JFloat (1 / 2));
          route_type = get_or data ''type'' (JStr ''balanced'');
          speed = get_or data ''speed'' (JInt 30)
      in if \<not> hashable route_type then (Unhandled TypeError, st)
         else if \<not> is_route_type route_type then (Error 400 invalid_type_message, st)
         else if \<not> valid_coords origin then (Error 400 ''Invalid origin'', st)
         else if \<not> valid_coords destination then (Error 400 ''Invalid destination'', st)
         else if coords_tuple origin = coords_tuple destination
           then (Error 400 ''Origin and destination cannot match'', st)
         else if \<not> valid_hour hour then (Error 400 ''Invalid hour'', st)
         else if \<not> valid_alpha alpha then (Error 400 ''Invalid alpha'', st)
         else
           (let h = (case int_of hour of Some i \<Rightarrow> i | None \<Rightarrow> 0)
            in case compute_route astar st now (coords_tuple origin) (coords_tuple destination)
                      h (preset_alpha route_type alpha) of
                 (Inl e, st') \<Rightarrow> (Unhandled e, st')
               | (Inr res, st') \<Rightarrow>
                   if truthy (snd res) then (Error 404 (the_default [] (snd res)), st')
                   else (Success (RouteData (fst res) (strategy_name route_type)
                           (time_multiplier h)), st')))"

text \<open>The body of a \<^verbatim>\<open>/get_routes\<close> request: \<^verbatim>\<open>request.get_json()\<close> raises, or it
  returns a JSON object, or it returns another JSON value (an array, a string, a number,
  a truth value or \<^verbatim>\<open>null\<close>), which has no method \<^verbatim>\<open>get\<close>.\<close>

datatype request_body = Malformed | Object "string \<rightharpoonup> jval" | Not_object

definition get_routes ::
  "search \<Rightarrow> state \<Rightarrow> string \<Rightarrow> real \<Rightarrow> request_body \<Rightarrow> response \<times> state" where
  "get_routes astar st ip now body =
     (case rate_limit st ip now of
        (False, st1) \<Rightarrow> (Error 429 ''Too many requests'', st1)
      | (True, st1) \<Rightarrow>
          (case body of
             Malformed \<Rightarrow> (Error 400 ''Malformed JSON'', st1)
           | Not_object \<Rightarrow> (Unhandled AttributeError, st1)
           | Object data \<Rightarrow> handle_query astar st1 now data))"

section \<open>Path search\<close>

text \<open>
  Modelled from the spec: \<^verbatim>\<open>PathFinder.search\<close>. The source calls \<^verbatim>\<open>nx.astar_path\<close> of the
  networkx library with \<^verbatim>\<open>math.dist\<close> as heuristic and the edge attribute \<^verbatim>\<open>weight\<close> as
  cost; the library is not part of the repository. The spec describes it as a weighted
  shortest-path search that uses the edge weight as cost and the planar distance between
  two points as search heuristic, and that fails when no path exists. The model is the
  A* search: the frontier holds the partial paths found so far, each with its cost and
  with the estimate cost plus distance to the target; the entry with the least estimate
  is taken next (the earliest one among equals), the search ends when that entry has
  reached the target, and a vertex is expanded once. The spec leaves the arithmetic of the
  search open: costs and estimates are added here as exact numbers.
\<close>

record entry =
  est :: real
  cost :: real
  reached :: point
  trail :: "point list"

definition successors :: "graph \<Rightarrow> point \<Rightarrow> (point \<times> real) list" where
  "successors G u =
     map (\<lambda>e. (snd (fst e), weight (snd e))) (filter (\<lambda>e. fst (fst e) = u) (edges G))"

fun least_entry :: "entry \<Rightarrow> entry list \<Rightarrow> entry" where
  "least_entry best [] = best"
| "least_entry best (e # es) =
     (if est e < est best then least_entry e es else least_entry best es)"

definition expand :: "graph \<Rightarrow> (point \<Rightarrow> real) \<Rightarrow> point list \<Rightarrow> entry \<Rightarrow> entry list" where
  "expand G h explored e =
     map (\<lambda>vw. \<lparr>est = cost e + snd vw + h (fst vw), cost = cost e + snd vw,
                 reached = fst vw, trail = reached e # trail e\<rparr>)
       (filter (\<lambda>vw. fst vw \<noteq> reached e \<and> fst vw \<notin> set explored) (successors G (reached e)))"

text \<open>The vertices that can still be expanded: every round of the search either expands
  one of them or shortens the frontier.\<close>

definition pending :: "graph \<Rightarrow> point list \<Rightarrow> entry list \<Rightarrow> nat" where
  "pending G explored frontier =
     card ((reached ` set frontier \<union> (\<lambda>e. snd (fst e)) ` set (edges G)) - set explored)"

text \<open>Modelled from the spec: the rounds of \<^verbatim>\<open>PathFinder.search\<close> (in the source the
  body of \<^verbatim>\<open>nx.astar_path\<close>, which is not under \<^verbatim>\<open>src/\<close>), for a heuristic \<open>h\<close>, a
  target \<open>t\<close>, the vertices expanded so far and the frontier.\<close>

function astar_loop ::
  "graph \<Rightarrow> (point \<Rightarrow> real) \<Rightarrow> point \<Rightarrow> point list \<Rightarrow> entry list \<Rightarrow> search_result" where
  "astar_loop G h t explored [] = NetworkXNoPath"
| "astar_loop G h t explored (e0 # es) =
     (let e = least_entry e0 es; rest = remove1 e (e0 # es) in
      if reached e = t then Path (rev (reached e # trail e))
      else if reached e \<in> set explored then astar_loop G h t explored rest
      else astar_loop G h t (reached e # explored) (rest @ expand G h explored e))"
  by pat_completeness auto
termination
proof (relation "measures [\<lambda>(G, h, t, explored, frontier). pending G explored frontier,
                           \<lambda>(G, h, t, explored, frontier). length frontier]", goal_cases)
  case 1
  then show ?case by simp
next
  case (2 G h t explored e0 es e rest)
  have "least_entry b xs \<in> set (b # xs)" for b xs
    by (induction xs arbitrary: b) (auto split: if_splits)
  then have in_f: "e \<in> set (e0 # es)" using 2(1) by simp
  have sub: "reached ` set rest \<subseteq> reached ` set (e0 # es)"
    using 2(2) set_remove1_subset [of e "e0 # es"] by auto
  have "pending G explored rest \<le> pending G explored (e0 # es)"
    unfolding pending_def using sub by (intro card_mono) auto
  moreover have "length rest < length (e0 # es)"
    using in_f unfolding 2(2) length_remove1 by simp
  ultimately show ?case by auto
next
  case (3 G h t explored e0 es e rest)
  have "least_entry b xs \<in> set (b # xs)" for b xs
    by (induction xs arbitrary: b) (auto split: if_splits)
  then have in_f: "e \<in> set (e0 # es)" using 3(1) by simp
  have sub: "reached ` set rest \<subseteq> reached ` set (e0 # es)"
    using 3(2) set_remove1_subset [of e "e0 # es"] by auto
  let ?T = "(\<lambda>e. snd (fst e)) ` set (edges G)"
  have new: "reached ` set (expand G h explored e) \<subseteq> ?T"
    by (force simp: expand_def successors_def)
  have "(reached ` set (rest @ expand G h explored e) \<union> ?T) - set (reached e # explored)
          \<subset> (reached ` set (e0 # es) \<union> ?T) - set explored"
    using sub new in_f 3(4) by auto
  then have "pending G (reached e # explored) (rest @ expand G h explored e)
      < pending G explored (e0 # es)"
    unfolding pending_def by (intro psubset_card_mono) auto
  then show ?case by simp
qed

text \<open>The heuristic \<^verbatim>\<open>lambda a, b: math.dist(a, b)\<close>, as a number.\<close>

definition planar_distance :: "point \<Rightarrow> point \<Rightarrow> real" where
  "planar_distance p q = (case math_dist p q of Inl _ \<Rightarrow> 0 | Inr d \<Rightarrow> d)"

definition same_dimension :: "graph \<Rightarrow> point \<Rightarrow> bool" where
  "same_dimension G t \<longleftrightarrow>
     list_all (\<lambda>n. length n = length t) (nodes G) \<and>
     list_all (\<lambda>e. length (fst (fst e)) = length t \<and> length (snd (fst e)) = length t) (edges G)"

text \<open>Modelled from the spec: \<^verbatim>\<open>PathFinder.search\<close> (in the source \<^verbatim>\<open>nx.astar_path\<close> with
  \<^verbatim>\<open>heuristic=lambda a, b: math.dist(a, b)\<close> and \<^verbatim>\<open>weight="weight"\<close>; networkx is not
  under \<^verbatim>\<open>src/\<close>). \<^verbatim>\<open>math.dist\<close> raises for a vertex of another dimension than the
  target, and a source or target outside the graph is an error of the search: either way
  \<^verbatim>\<open>compute_route\<close> reports \<^verbatim>\<open>Routing failure\<close>.\<close>

definition astar_path :: search where
  "astar_path G s t =
     (if s \<notin> set (nodes G) \<or> t \<notin> set (nodes G) \<or> \<not> same_dimension G t then OtherException
      else astar_loop G (\<lambda>v. planar_distance v t) t []
             [\<lparr>est = planar_distance s t, cost = 0, reached = s, trail = []\<rparr>])"

text \<open>Paths of a graph, and the sum of an edge attribute along a path.\<close>

fun is_path :: "graph \<Rightarrow> point list \<Rightarrow> bool" where
  "is_path G [] = False"
| "is_path G [v] = True"
| "is_path G (u # v # rest) = (map_of (edges G) (u, v) \<noteq> None \<and> is_path G (v # rest))"

fun total :: "(edge_attrs \<Rightarrow> real) \<Rightarrow> graph \<Rightarrow> point list \<Rightarrow> real" where
  "total attr G (u # v # rest) =
     (case map_of (edges G) (u, v) of None \<Rightarrow> 0 | Some a \<Rightarrow> attr a) + total attr G (v # rest)"
| "total attr G path = 0"

text \<open>The heuristic never overestimates the weight of an edge it crosses.\<close>

definition consistent :: "graph \<Rightarrow> (point \<Rightarrow> real) \<Rightarrow> bool" where
  "consistent G h \<longleftrightarrow> list_all (\<lambda>e. h (fst (fst e)) \<le> weight (snd e) + h (snd (fst e))) (edges G)"

text \<open>What holds of the frontier and the expanded vertices in every round of the search
  from \<open>s\<close> to \<open>t\<close>: frontier entries are paths from \<open>s\<close> with their true cost; \<open>t\<close> is
  not expanded; every expanded vertex was reached at least cost, and its successors are
  expanded or wait in the frontier at no more than that cost plus the edge.\<close>

definition entry_path :: "entry \<Rightarrow> point list" where
  "entry_path e = rev (reached e # trail e)"

definition astar_inv ::
  "graph \<Rightarrow> (point \<Rightarrow> real) \<Rightarrow> point \<Rightarrow> point \<Rightarrow> point list \<Rightarrow> entry list \<Rightarrow> bool" where
  "astar_inv G h s t explored frontier \<longleftrightarrow>
     (\<forall>e \<in> set frontier.
        is_path G (entry_path e) \<and> hd (entry_path e) = s \<and>
        cost e = total weight G (entry_path e) \<and> est e = cost e + h (reached e)) \<and>
     t \<notin> set explored \<and>
     (s \<notin> set explored \<longrightarrow> (\<exists>e \<in> set frontier. reached e = s \<and> cost e \<le> 0)) \<and>
     (\<forall>c \<in> set explored. \<exists>g.
        (\<forall>q. is_path G q \<and> hd q = s \<and> last q = c \<longrightarrow> g \<le> total weight G q) \<and>
        (\<forall>v a. map_of (edges G) (c, v) = Some a \<and> v \<notin> set explored \<longrightarrow>
           (\<exists>e \<in> set frontier. reached e = v \<and> cost e \<le> g + weight a)))"

section \<open>Proof devices\<close>

text \<open>The memo table of \<^verbatim>\<open>calculate_risk\<close> agrees with the function it caches, for the
  configuration and the dataset the state holds: it has no stale entry.\<close>

definition risk_cache_ok :: "state \<Rightarrow> bool" where
  "risk_cache_ok st \<longleftrightarrow>
     list_all (\<lambda>kv. calculate_risk_wrapped (RISK_CONFIG st) (SEGMENTS_BY_ID st)
                  (fst (fst kv)) (snd (fst kv)) = Inr (snd kv))
       (calculate_risk_cache st)"

text \<open>Every graph holds the end points of its edges among its nodes, as
  \<^verbatim>\<open>nx.DiGraph.add_edge\<close> sees to.\<close>

definition closed_graph :: "graph \<Rightarrow> bool" where
  "closed_graph G \<longleftrightarrow>
     list_all (\<lambda>e. fst (fst e) \<in> set (nodes G) \<and> snd (fst e) \<in> set (nodes G)) (edges G)"

text \<open>What every state of the running service satisfies: the memoised scores are floats,
  the cached graphs are closed, and the segment dictionary has one entry per id.\<close>

definition sound_state :: "state \<Rightarrow> bool" where
  "sound_state st \<longleftrightarrow>
     list_all (\<lambda>kv. is_float (snd kv)) (calculate_risk_cache st) \<and>
     list_all (\<lambda>kv. closed_graph (snd kv)) (build_graph_cache st) \<and>
     distinct (map fst (SEGMENTS_BY_ID st))"

text \<open>One pass of the loop of \<^verbatim>\<open>build_graph\<close>: the edge \<open>e\<close> that the segment \<open>entry\<close>
  adds. Its risk is a float; it is the score of the segment when the memo table has no
  stale entry (\<open>fresh\<close>).\<close>

definition built_edge ::
  "(pykey \<times> jval) list \<Rightarrow> (string \<times> segment) list \<Rightarrow> (string \<times> real) list \<Rightarrow> bool \<Rightarrow>
   int \<Rightarrow> real \<Rightarrow> string \<times> segment \<Rightarrow> (point \<times> point) \<times> edge_attrs \<Rightarrow> bool" where
  "built_edge cfg by_id dists fresh hour alpha entry e \<longleftrightarrow>
     (\<exists>a b r d t.
        seg_start (snd entry) = Some a \<and> seg_end (snd entry) = Some b \<and>
        map_of dists (fst entry) = Some d \<and> compute_eta d DEFAULT_SPEED_KMPH = Inr t \<and>
        is_float r \<and>
        (fresh \<longrightarrow> calculate_risk_wrapped cfg by_id (fst entry) hour = Inr r) \<and>
        e = ((a, b), edge_for alpha (fst entry) a b r t))"

text \<open>Numbers far inside the range of the doubles: no sum, product or distance of them
  overflows.\<close>

definition moderate :: "real \<Rightarrow> bool" where
  "moderate x \<longleftrightarrow> \<bar>x\<bar> \<le> 2 ^ 500"

section \<open>Process life cycle and fixtures\<close>

text \<open>The globals as the module body leaves them before it calls \<^verbatim>\<open>load_dataset()\<close>,
  and the state once the import has finished: the dataset is loaded at time \<open>t_load\<close>,
  \<^verbatim>\<open>LAST_CACHE_CLEAR\<close> is set at time \<open>t_clear\<close>.\<close>

definition import_state :: state where
  "import_state =
     \<lparr>RISK_CONFIG = initial_RISK_CONFIG, DATASET_TIMESTAMP = 0, SEGMENTS_BY_ID = [],
      SEGMENT_DISTANCES = [], LAST_CACHE_CLEAR = 0, REQUESTS = [],
      calculate_risk_cache = [], build_graph_cache = []\<rparr>"

definition module_import :: "dataset_file \<Rightarrow> real \<Rightarrow> real \<Rightarrow> state" where
  "module_import file t_load t_clear =
     (snd (load_dataset import_state t_load file))\<lparr>LAST_CACHE_CLEAR := t_clear\<rparr>"

text \<open>The states the running service can be in: the state after import, and every state
  that a request to one of the three endpoints leaves behind, whatever its body is and
  whether it succeeds or not.\<close>

inductive reachable :: "state \<Rightarrow> bool" where
  start: "reachable (module_import file t_load t_clear)"
| reload: "reachable st \<Longrightarrow> reachable (snd (reload_data st now file))"
| config: "reachable st \<Longrightarrow> reachable (snd (config_risk st body))"
| query: "reachable st \<Longrightarrow> reachable (snd (get_routes astar st ip now body))"

text \<open>A segment object with all six keys.\<close>

definition full_segment ::
  "string \<Rightarrow> point \<Rightarrow> point \<Rightarrow> real \<Rightarrow> real \<Rightarrow> real \<Rightarrow> segment" where
  "full_segment i a b c l cr =
     \<lparr>seg_id = Some i, seg_start = Some a, seg_end = Some b,
      seg_crime = Some c, seg_lighting = Some l, seg_crowd = Some cr\<rparr>"

text \<open>A one-segment dataset from \<open>(0, 0)\<close> to \<open>(2, 0)\<close> with the worst scores, and the
  service started on it.\<close>

definition fixture_file :: dataset_file where
  "fixture_file = Parsed [full_segment ''s1'' [0, 0] [2, 0] 1 0 0]"

definition fixture_state :: state where
  "fixture_state = module_import fixture_file 0 0"

text \<open>The graph of that dataset at hour 10 with \<open>alpha = 0.5\<close>: the distance 2 gives
  an ETA of 4 minutes, the scores give the risk 0.9. A decimal \<open>d\<close> of the source or of
  Python's output is the float \<open>fl d\<close>.\<close>

definition fixture_graph :: graph where
  "fixture_graph =
     \<lparr>nodes = [[0, 0], [2, 0]],
      edges = [(([0, 0], [2, 0]),
        \<lparr>eta = 4, risk = fl (9 / 10), weight = fl (49 / 20), geometry = [[0, 0], [2, 0]],
         segment_id = ''s1''\<rparr>)]\<rparr>"

definition fixture_state_after_query :: state where
  "fixture_state_after_query =
     fixture_state\<lparr>calculate_risk_cache := [((''s1'', 10), fl (9 / 10))],
       build_graph_cache := [((10, 1 / 2, 0), fixture_graph)]\<rparr>"

text \<open>The risk configuration is updated after that query, with the body
  \<^verbatim>\<open>{"crime_weight": 0.1}\<close>.\<close>

definition lower_crime_weight :: jval where
  "lower_crime_weight = JObj [(''crime_weight'', JFloat (fl (1 / 10)))]"

definition fixture_state_reconfigured :: state where
  "fixture_state_reconfigured =
     snd (config_risk fixture_state_after_query (Some lower_crime_weight))"

text \<open>A client asks for a route on the fixture at hour 10, from \<open>(0, 0)\<close> to \<open>(2, 0)\<close>,
  and then posts the body \<^verbatim>\<open>[["crime_weight", 0.1], 5]\<close> to \<^verbatim>\<open>/config_risk\<close>.\<close>

definition fixture_query :: "string \<rightharpoonup> jval" where
  "fixture_query =
     [''origin'' \<mapsto> JArr [JInt 0, JInt 0], ''destination'' \<mapsto> JArr [JInt 2, JInt 0],
      ''hour'' \<mapsto> JInt 10]"

definition broken_update :: jval where
  "broken_update = JArr [JArr [JStr ''crime_weight'', JFloat (fl (1 / 10))], JInt 5]"

definition fixture_state_asked :: state where
  "fixture_state_asked =
     fixture_state_after_query\<lparr>REQUESTS := [(''client'', [1])]\<rparr>"

definition fixture_state_half_configured :: state where
  "fixture_state_half_configured =
     fixture_state_asked\<lparr>RISK_CONFIG :=
       [(KStr ''crime_weight'', JFloat (fl (1 / 10))),
        (KStr ''lighting_weight'', JFloat (fl (15 / 100))),
        (KStr ''crowd_weight'', JFloat (fl (15 / 100))),
        (KStr ''nonlinear_exponent'', JFloat (fl (13 / 10)))]\<rparr>"

text \<open>The graph that \<^verbatim>\<open>build_graph\<close> then builds for hour 10 and \<open>alpha = 1\<close>.\<close>

definition stale_graph :: graph where
  "stale_graph =
     \<lparr>nodes = [[0, 0], [2, 0]],
      edges = [(([0, 0], [2, 0]), edge_for 1 ''s1'' [0, 0] [2, 0] (fl (9 / 10)) 4)]\<rparr>"

text \<open>Two datasets that cannot be loaded: in the first the only segment lacks the key
  \<^verbatim>\<open>crowd\<close>; in the second it has all six keys, but its end point has one coordinate only.\<close>

definition incomplete_file :: dataset_file where
  "incomplete_file = Parsed [(full_segment ''s2'' [0, 0] [1, 0] 0 1 1)\<lparr>seg_crowd := None\<rparr>]"

definition broken_file :: dataset_file where
  "broken_file = Parsed [full_segment ''s2'' [0, 0] [1] 0 1 1]"

text \<open>Two segments with the same end points and different scores, followed by a third
  segment of length 7.6875, and the graph of that dataset at hour 22 with \<open>alpha = 0.5\<close>.\<close>

definition twin_file :: dataset_file where
  "twin_file = Parsed [full_segment ''s1'' [0, 0] [2, 0] 1 0 0,
                       full_segment ''s2'' [0, 0] [2, 0] 0 1 1,
                       full_segment ''s3'' [2, 0] [155 / 16, 0] 1 0 0]"

definition twin_state :: state where
  "twin_state = module_import twin_file 0 0"

definition twin_graph :: graph where
  "twin_graph =
     \<lparr>nodes = [[0, 0], [2, 0], [155 / 16, 0]],
      edges = [(([0, 0], [2, 0]), edge_for (1 / 2) ''s2'' [0, 0] [2, 0] 0 4),
               (([2, 0], [155 / 16, 0]),
                edge_for (1 / 2) ''s3'' [2, 0] [155 / 16, 0] (fl (103 / 100)) (fl (1537 / 100)))]\<rparr>"





text \<open>A direct route of two risky segments from \<open>(0, 0)\<close> over \<open>(3, 0)\<close> to \<open>(6, 0)\<close>
  and a detour of two safe segments over \<open>(3, 4)\<close>; the graph of that dataset at hour 10
  for a given alpha.\<close>

definition detour_file :: dataset_file where
  "detour_file = Parsed
     [full_segment ''a1'' [0, 0] [3, 0] 1 0 0, full_segment ''a2'' [3, 0] [6, 0] 1 0 0,
      full_segment ''b1'' [0, 0] [3, 4] 0 1 1, full_segment ''b2'' [3, 4] [6, 0] 0 1 1]"

definition detour_state :: state where
  "detour_state = module_import detour_file 0 0"

definition detour_edge :: "real \<Rightarrow> string \<Rightarrow> point \<Rightarrow> point \<Rightarrow> real \<Rightarrow> real \<Rightarrow> (point \<times> point) \<times> edge_attrs" where
  "detour_edge alpha sid a b r e = ((a, b), edge_for alpha sid a b r e)"

definition detour_graph :: "real \<Rightarrow> graph" where
  "detour_graph alpha =
     \<lparr>nodes = [[0, 0], [3, 0], [6, 0], [3, 4]],
      edges = [detour_edge alpha ''a1'' [0, 0] [3, 0] (fl (9 / 10)) 6,
               detour_edge alpha ''a2'' [3, 0] [6, 0] (fl (9 / 10)) 6,
               detour_edge alpha ''b1'' [0, 0] [3, 4] 0 10,
               detour_edge alpha ''b2'' [3, 4] [6, 0] 0 10]\<rparr>"

definition direct_route :: "point list" where
  "direct_route = [[0, 0], [3, 0], [6, 0]]"

definition safe_detour :: "point list" where
  "safe_detour = [[0, 0], [3, 4], [6, 0]]"

text \<open>The one-segment fixture with the crime weight raised to 3, and its graph at hour 10
  with \<open>alpha = 0\<close>.\<close>

definition cautious_state :: state where
  "cautious_state =
     snd (config_risk fixture_state (Some (JObj [(''crime_weight'', JInt 3)])))"

definition cautious_graph :: graph where
  "cautious_graph =
     \<lparr>nodes = [[0, 0], [2, 0]],
      edges = [(([0, 0], [2, 0]), edge_for 0 ''s1'' [0, 0] [2, 0] (fl (33 / 10)) 4)]\<rparr>"

text \<open>A search for experiments, which finds nothing.\<close>

definition no_path_search :: search where
  "no_path_search G s t = NetworkXNoPath"

section \<open>Basic facts\<close>

lemma bind_exn_Inr [simp]: "bind_exn (Inr x) f = f x"
  by (simp add: bind_exn_def)

lemma bind_exn_Inl [simp]: "bind_exn (Inl e) f = Inl e"
  by (simp add: bind_exn_def)

lemma bind_exn_Inr_iff:
  "bind_exn m f = Inr y \<longleftrightarrow> (\<exists>x. m = Inr x \<and> f x = Inr y)"
  by (cases m) (simp_all add: bind_exn_def)

lemma full_segment_sel:
  "seg_id (full_segment i a b c l cr) = Some i"
  "seg_start (full_segment i a b c l cr) = Some a"
  "seg_end (full_segment i a b c l cr) = Some b"
  "seg_crime (full_segment i a b c l cr) = Some c"
  "seg_lighting (full_segment i a b c l cr) = Some l"
  "seg_crowd (full_segment i a b c l cr) = Some cr"
  by (simp_all add: full_segment_def)

section \<open>Rounding to the nearest float\<close>

lemma round_half_even_near:
  assumes "of_int k - 1 / 2 < y" "y < of_int k + 1 / 2"
  shows "round_half_even y = k"
proof (cases "of_int k \<le> y")
  case True
  then have "\<lfloor>y\<rfloor> = k" using assms by (intro floor_unique) auto
  then show ?thesis using assms by (simp add: round_half_even_def Let_def)
next
  case False
  then have "\<lfloor>y\<rfloor> = k - 1" using assms by (intro floor_unique) auto
  then show ?thesis using assms False by (simp add: round_half_even_def Let_def)
qed

lemma round_half_even_of_int: "round_half_even (of_int k) = k"
  by (rule round_half_even_near) auto

lemma round_half_even_bounds:
  "\<lfloor>y\<rfloor> \<le> round_half_even y" "round_half_even y \<le> \<lceil>y\<rceil>"
proof -
  show "\<lfloor>y\<rfloor> \<le> round_half_even y" by (simp add: round_half_even_def Let_def)
  show "round_half_even y \<le> \<lceil>y\<rceil>"
  proof (cases "y = of_int \<lfloor>y\<rfloor>")
    case True
    then have "y - of_int \<lfloor>y\<rfloor> = 0" by simp
    then have "round_half_even y = \<lfloor>y\<rfloor>" by (simp add: round_half_even_def Let_def)
    then show ?thesis by (simp add: floor_le_ceiling)
  next
    case False
    then have "\<lceil>y\<rceil> = \<lfloor>y\<rfloor> + 1" by (simp add: ceiling_altdef)
    then show ?thesis by (simp add: round_half_even_def Let_def)
  qed
qed

lemma round_half_even_abs_le:
  assumes "\<bar>y\<bar> \<le> of_int N"
  shows "\<bar>round_half_even y\<bar> \<le> N"
proof -
  from assms have "y \<le> of_int N" "of_int (- N) \<le> y" by auto
  then have "\<lceil>y\<rceil> \<le> N" "- N \<le> \<lfloor>y\<rfloor>" by (simp_all add: ceiling_le_iff le_floor_iff)
  with round_half_even_bounds [of y] show ?thesis by linarith
qed

lemma float_exponent_ge: "- 1022 \<le> float_exponent x"
  by (simp add: float_exponent_def)

lemma ulp_pos: "0 < ulp x"
  by (simp add: ulp_def)

lemma float_exponent_eq:
  assumes "2 powi e \<le> \<bar>x\<bar>" "\<bar>x\<bar> < 2 powi (e + 1)" "- 1022 \<le> e"
  shows "float_exponent x = e"
proof -
  have pos: "0 < \<bar>x\<bar>" using assms(1) by (smt (verit) zero_less_power_int)
  have "2 powr (real_of_int e + 1) = 2 powi (e + 1)"
    using powr_real_of_int' [of 2 "e + 1"] by simp
  then have "\<lfloor>log 2 \<bar>x\<bar>\<rfloor> = e"
    using assms(1,2) pos by (simp add: floor_log_eq_powr_iff powr_real_of_int')
  then show ?thesis using pos assms(3) by (simp add: float_exponent_def)
qed

lemma fl_eval:
  assumes "2 powi e \<le> \<bar>x\<bar>" "\<bar>x\<bar> < 2 powi (e + 1)" "- 1022 \<le> e"
  shows "fl x = of_int (round_half_even (x / 2 powi (e - 52))) * 2 powi (e - 52)"
  using float_exponent_eq [OF assms] by (simp add: fl_def ulp_def)

lemma fl_zero [simp]: "fl 0 = 0"
  by (simp add: fl_def round_half_even_def)

text \<open>The magnitude of a number within its binade.\<close>

lemma abs_less_next_binade:
  assumes "x \<noteq> 0"
  shows "\<bar>x\<bar> < 2 powi (float_exponent x + 1)"
proof -
  let ?l = "\<lfloor>log 2 \<bar>x\<bar>\<rfloor>"
  have pos: "0 < \<bar>x\<bar>" using assms by simp
  have "\<bar>x\<bar> < 2 powr (of_int ?l + 1)"
    using floor_log_eq_powr_iff [of "\<bar>x\<bar>" 2 ?l] pos by simp
  also have "\<dots> = 2 powi (?l + 1)"
    using powr_real_of_int' [of 2 "?l + 1"] by simp
  also have "\<dots> \<le> 2 powi (float_exponent x + 1)"
    using assms by (intro power_int_increasing) (simp_all add: float_exponent_def)
  finally show ?thesis .
qed

lemma binade_le_abs:
  assumes "x \<noteq> 0" "float_exponent x \<noteq> - 1022"
  shows "2 powi float_exponent x \<le> \<bar>x\<bar>"
proof -
  let ?l = "\<lfloor>log 2 \<bar>x\<bar>\<rfloor>"
  have pos: "0 < \<bar>x\<bar>" using assms by simp
  from assms have e: "float_exponent x = ?l" by (auto simp: float_exponent_def max_def split: if_splits)
  have "2 powr (of_int ?l) \<le> \<bar>x\<bar>"
    using floor_log_eq_powr_iff [of "\<bar>x\<bar>" 2 ?l] pos by simp
  then show ?thesis unfolding e using powr_real_of_int' [of 2 ?l] by simp
qed

lemma is_float_fl: "is_float (fl x)"
proof (cases "x = 0")
  case True
  then show ?thesis by (auto simp: is_float_def intro: exI [of _ 0])
next
  case False
  let ?e = "float_exponent x"
  have "\<bar>x\<bar> < 2 powi (?e + 1)" using False by (rule abs_less_next_binade)
  also have "\<dots> = 2 ^ 53 * 2 powi (?e - 52)"
    by (simp add: power_int_add power_int_diff)
  finally have "\<bar>x / ulp x\<bar> < 2 ^ 53"
    using ulp_pos [of x] by (simp add: ulp_def field_simps)
  then have "\<bar>x / ulp x\<bar> \<le> of_int (2 ^ 53)" by simp
  then have "\<bar>round_half_even (x / ulp x)\<bar> \<le> 2 ^ 53" by (rule round_half_even_abs_le)
  moreover have "- 1074 \<le> ?e - 52" using float_exponent_ge [of x] by simp
  ultimately show ?thesis unfolding is_float_def fl_def ulp_def by blast
qed

lemma fl_of_float:
  assumes "is_float y"
  shows "fl y = y"
proof (cases "y = 0")
  case True
  then show ?thesis by simp
next
  case False
  from assms obtain n k where y: "y = of_int n * 2 powi k" and n: "\<bar>n\<bar> \<le> 2 ^ 53" and k: "- 1074 \<le> k"
    unfolding is_float_def by blast
  define e where "e = float_exponent y"
  have u: "ulp y = 2 powi (e - 52)" by (simp add: ulp_def e_def)
  have "\<exists>m. y / ulp y = of_int m"
  proof (cases "e - 52 \<le> k")
    case True
    then obtain j where j: "k = (e - 52) + int j" by (metis zle_iff_zadd)
    have "of_int n * 2 powi k / 2 powi (e - 52) = of_int n * (2 :: real) powi (int j)"
      unfolding j by (simp add: power_int_add)
    also have "\<dots> = of_int (n * 2 ^ j)" by simp
    finally show ?thesis unfolding u using y by blast
  next
    case small: False
    then have ne: "float_exponent y \<noteq> - 1022" using k by (simp add: e_def)
    have "\<bar>y\<bar> = real_of_int \<bar>n\<bar> * 2 powi k" by (simp add: y abs_mult)
    also have "\<dots> \<le> real_of_int (2 ^ 53) * 2 powi k"
    proof (rule mult_right_mono)
      show "real_of_int \<bar>n\<bar> \<le> real_of_int (2 ^ 53)" using n by (simp only: of_int_le_iff)
      show "(0 :: real) \<le> 2 powi k" by simp
    qed
    also have "\<dots> = 2 powi (k + 53)" by (simp add: power_int_add)
    finally have 1: "\<bar>y\<bar> \<le> 2 powi (k + 53)" .
    have 2: "(2 :: real) powi (k + 53) \<le> 2 powi e"
      using small by (intro power_int_increasing) simp_all
    have 3: "2 powi e \<le> \<bar>y\<bar>" using binade_le_abs [OF False ne] by (simp add: e_def)
    from 1 2 3 have ay: "\<bar>y\<bar> = 2 powi e" by linarith
    have "\<bar>y\<bar> / ulp y = 2 powi e / 2 powi (e - 52)"
      using ay by (simp add: u)
    also have "\<dots> = 2 ^ 52" by (simp add: power_int_diff)
    finally have "\<bar>y / ulp y\<bar> = of_int (2 ^ 52)" using ulp_pos [of y] by simp
    then have "y / ulp y = of_int (2 ^ 52) \<or> y / ulp y = of_int (- (2 ^ 52))"
      by (simp add: abs_if split: if_splits)
    then show ?thesis by blast
  qed
  then obtain m where m: "y / ulp y = of_int m" ..
  then have "of_int m * ulp y = y" using ulp_pos [of y] by (simp add: field_simps)
  then show ?thesis by (simp add: fl_def m round_half_even_of_int)
qed

lemma fl_idem [simp]: "fl (fl x) = fl x"
  by (rule fl_of_float) (rule is_float_fl)

lemma is_float_int: "\<bar>n\<bar> \<le> 2 ^ 53 \<Longrightarrow> is_float (of_int n)"
  unfolding is_float_def by (intro exI [of _ n] exI [of _ 0]) simp

lemma is_float_dyadic: "\<bar>n\<bar> \<le> 2 ^ 53 \<Longrightarrow> k \<le> 1074 \<Longrightarrow> is_float (of_int n / 2 ^ k)"
  unfolding is_float_def
  by (intro exI [of _ n] exI [of _ "- int k"]) (simp add: power_int_minus field_simps)

lemma is_float_zero: "is_float 0"
  using is_float_int [of 0] by simp

lemma is_float_one: "is_float 1"
  using is_float_int [of 1] by simp

lemma is_float_numeral: "numeral n \<le> (2 ^ 53 :: int) \<Longrightarrow> is_float (numeral n)"
  using is_float_int [of "numeral n"] by simp

lemma fl_one [simp]: "fl 1 = 1"
  by (rule fl_of_float) (rule is_float_one)

lemma fl_numeral: "numeral n \<le> (2 ^ 53 :: int) \<Longrightarrow> fl (numeral n) = numeral n"
  by (rule fl_of_float) (rule is_float_numeral)

lemma fl_neg_numeral: "numeral n \<le> (2 ^ 53 :: int) \<Longrightarrow> fl (- numeral n) = - numeral n"
  using fl_of_float [OF is_float_int [of "- numeral n"]] by simp

lemma fl_minus_one [simp]: "fl (- 1) = - 1"
  using fl_of_float [OF is_float_int [of "- 1"]] by simp

lemma fl_half [simp]: "fl (1 / 2) = 1 / 2"
  using fl_of_float [OF is_float_dyadic [of 1 1]] by simp

lemma is_float_py_round: "is_float (py_round x k)"
  unfolding py_round_def by (rule is_float_fl)

lemma fl_py_round [simp]: "fl (py_round x k) = py_round x k"
  by (rule fl_of_float) (rule is_float_py_round)

lemma py_round_numeral:
  "numeral n \<le> (2 ^ 53 :: int) \<Longrightarrow> py_round (numeral n) k = numeral n"
  using round_half_even_of_int [of "numeral n * 10 ^ k"]
  by (simp add: py_round_def fl_numeral)

lemma py_round_zero [simp]: "py_round 0 k = 0"
  using round_half_even_of_int [of 0] by (simp add: py_round_def)

lemma fadd_zero_left: "is_float x \<Longrightarrow> fadd 0 x = x"
  by (simp add: fadd_def fl_of_float)

lemma fadd_zero_right: "is_float x \<Longrightarrow> fadd x 0 = x"
  by (simp add: fadd_def fl_of_float)

lemma fmul_one_left: "is_float x \<Longrightarrow> fmul 1 x = x"
  by (simp add: fmul_def fl_of_float)

lemma fmul_zero_left [simp]: "fmul 0 x = 0"
  by (simp add: fmul_def)

lemma fmul_zero_right [simp]: "fmul x 0 = 0"
  by (simp add: fmul_def)

lemma fsub_self [simp]: "fsub x x = 0"
  by (simp add: fsub_def)

lemma fsub_one_zero [simp]: "fsub 1 0 = 1"
  by (simp add: fsub_def)

section \<open>The floats of the fixtures\<close>

lemma fl_value_1: "fl (- (123 / 16)) = - (123 / 16)"
  by (subst fl_eval [where e = "2"]) (simp_all add: round_half_even_def Let_def power_int_minus)

lemma fl_value_2: "fl (- (3 / 2)) = - (3 / 2)"
  by (subst fl_eval [where e = "0"]) (simp_all add: round_half_even_def Let_def power_int_minus)

lemma fl_value_3: "fl (1 / 1073741824) = 1 / 1073741824"
  by (subst fl_eval [where e = "- 30"]) (simp_all add: round_half_even_def Let_def power_int_minus)

lemma fl_value_4: "fl (1 / 50) = 5764607523034235 / 288230376151711744"
  by (subst fl_eval [where e = "- 6"]) (simp_all add: round_half_even_def Let_def power_int_minus)

lemma fl_value_5: "fl (1 / 30) = 4803839602528529 / 144115188075855872"
  by (subst fl_eval [where e = "- 5"]) (simp_all add: round_half_even_def Let_def power_int_minus)

lemma fl_value_6: "fl (1 / 15) = 4803839602528529 / 72057594037927936"
  by (subst fl_eval [where e = "- 4"]) (simp_all add: round_half_even_def Let_def power_int_minus)

lemma fl_value_7: "fl (1 / 10) = 3602879701896397 / 36028797018963968"
  by (subst fl_eval [where e = "- 4"]) (simp_all add: round_half_even_def Let_def power_int_minus)

lemma fl_value_8: "fl (3602879701896397 / 36028797018963968) = 3602879701896397 / 36028797018963968"
  by (subst fl_eval [where e = "- 4"]) (simp_all add: round_half_even_def Let_def power_int_minus)

lemma fl_value_9: "fl (5404319552844595 / 36028797018963968) = 5404319552844595 / 36028797018963968"
  by (subst fl_eval [where e = "- 3"]) (simp_all add: round_half_even_def Let_def power_int_minus)

lemma fl_value_10: "fl (3 / 20) = 5404319552844595 / 36028797018963968"
  by (subst fl_eval [where e = "- 3"]) (simp_all add: round_half_even_def Let_def power_int_minus)

lemma fl_value_11: "fl (1 / 6) = 6004799503160661 / 36028797018963968"
  by (subst fl_eval [where e = "- 3"]) (simp_all add: round_half_even_def Let_def power_int_minus)

lemma fl_value_12: "fl (1 / 4) = 1 / 4"
  by (subst fl_eval [where e = "- 2"]) (simp_all add: round_half_even_def Let_def power_int_minus)

lemma fl_value_13: "fl (41 / 160) = 2308094809027379 / 9007199254740992"
  by (subst fl_eval [where e = "- 2"]) (simp_all add: round_half_even_def Let_def power_int_minus)

lemma fl_value_14: "fl (14411518807585587 / 36028797018963968) = 3602879701896397 / 9007199254740992"
  by (subst fl_eval [where e = "- 2"]) (simp_all add: round_half_even_def Let_def power_int_minus)

lemma fl_value_15: "fl (2 / 5) = 3602879701896397 / 9007199254740992"
  by (subst fl_eval [where e = "- 2"]) (simp_all add: round_half_even_def Let_def power_int_minus)

lemma fl_value_16: "fl (3602879701896397 / 9007199254740992) = 3602879701896397 / 9007199254740992"
  by (subst fl_eval [where e = "- 2"]) (simp_all add: round_half_even_def Let_def power_int_minus)

lemma fl_value_17: "fl (8106479329266893 / 18014398509481984) = 8106479329266893 / 18014398509481984"
  by (subst fl_eval [where e = "- 2"]) (simp_all add: round_half_even_def Let_def power_int_minus)

lemma fl_value_18: "fl (4638707616191611 / 9007199254740992) = 4638707616191611 / 9007199254740992"
  by (subst fl_eval [where e = "- 1"]) (simp_all add: round_half_even_def Let_def power_int_minus)

lemma fl_value_19: "fl (2251799813685248 / 4278419646001971) = 4740631186705785 / 9007199254740992"
  by (subst fl_eval [where e = "- 1"]) (simp_all add: round_half_even_def Let_def power_int_minus)

lemma fl_value_20: "fl (53 / 100) = 2386907802506363 / 4503599627370496"
  by (subst fl_eval [where e = "- 1"]) (simp_all add: round_half_even_def Let_def power_int_minus)

lemma fl_value_21: "fl (5404319552844595 / 9007199254740992) = 5404319552844595 / 9007199254740992"
  by (subst fl_eval [where e = "- 1"]) (simp_all add: round_half_even_def Let_def power_int_minus)

lemma fl_value_22: "fl (3 / 5) = 5404319552844595 / 9007199254740992"
  by (subst fl_eval [where e = "- 1"]) (simp_all add: round_half_even_def Let_def power_int_minus)

lemma fl_value_23: "fl (27021597764222975 / 36028797018963968) = 3 / 4"
  by (subst fl_eval [where e = "- 1"]) (simp_all add: round_half_even_def Let_def power_int_minus)

lemma fl_value_24: "fl (32425917317067571 / 36028797018963968) = 8106479329266893 / 9007199254740992"
  by (subst fl_eval [where e = "- 1"]) (simp_all add: round_half_even_def Let_def power_int_minus)

lemma fl_value_25: "fl (9 / 10) = 8106479329266893 / 9007199254740992"
  by (subst fl_eval [where e = "- 1"]) (simp_all add: round_half_even_def Let_def power_int_minus)

lemma fl_value_26: "fl (8106479329266893 / 9007199254740992) = 8106479329266893 / 9007199254740992"
  by (subst fl_eval [where e = "- 1"]) (simp_all add: round_half_even_def Let_def power_int_minus)

lemma fl_value_27: "fl (103 / 100) = 4638707616191611 / 4503599627370496"
  by (subst fl_eval [where e = "0"]) (simp_all add: round_half_even_def Let_def power_int_minus)

lemma fl_value_28: "fl (20992293939779477785403496375255 / 20282409603651670423947251286016) = 4661225614328463 / 4503599627370496"
  by (subst fl_eval [where e = "0"]) (simp_all add: round_half_even_def Let_def power_int_minus)

lemma fl_value_29: "fl (109 / 100) = 4908923593833841 / 4503599627370496"
  by (subst fl_eval [where e = "0"]) (simp_all add: round_half_even_def Let_def power_int_minus)

lemma fl_value_30: "fl (23 / 20) = 2589569785738035 / 2251799813685248"
  by (subst fl_eval [where e = "0"]) (simp_all add: round_half_even_def Let_def power_int_minus)

lemma fl_value_31: "fl (59 / 50) = 5314247560297185 / 4503599627370496"
  by (subst fl_eval [where e = "0"]) (simp_all add: round_half_even_def Let_def power_int_minus)

lemma fl_value_32: "fl (13 / 10) = 5854679515581645 / 4503599627370496"
  by (subst fl_eval [where e = "0"]) (simp_all add: round_half_even_def Let_def power_int_minus)

lemma fl_value_33: "fl (3 / 2) = 3 / 2"
  by (subst fl_eval [where e = "0"]) (simp_all add: round_half_even_def Let_def power_int_minus)

lemma fl_value_34: "fl (8106479329266893 / 4503599627370496) = 8106479329266893 / 4503599627370496"
  by (subst fl_eval [where e = "0"]) (simp_all add: round_half_even_def Let_def power_int_minus)

lemma fl_value_35: "fl (17113678584007885 / 9007199254740992) = 4278419646001971 / 2251799813685248"
  by (subst fl_eval [where e = "0"]) (simp_all add: round_half_even_def Let_def power_int_minus)

lemma fl_value_36: "fl (72057594037927935 / 36028797018963968) = 2"
  by (subst fl_eval [where e = "0"]) (simp_all add: round_half_even_def Let_def power_int_minus)

lemma fl_value_37: "fl (49 / 20) = 2758454771764429 / 1125899906842624"
  by (subst fl_eval [where e = "1"]) (simp_all add: round_half_even_def Let_def power_int_minus)

lemma fl_value_38: "fl (44135276348230861 / 18014398509481984) = 2758454771764429 / 1125899906842624"
  by (subst fl_eval [where e = "1"]) (simp_all add: round_half_even_def Let_def power_int_minus)

lemma fl_value_39: "fl (5 / 2) = 5 / 2"
  by (subst fl_eval [where e = "1"]) (simp_all add: round_half_even_def Let_def power_int_minus)

lemma fl_value_40: "fl (113490710609736499 / 36028797018963968) = 7093169413108531 / 2251799813685248"
  by (subst fl_eval [where e = "1"]) (simp_all add: round_half_even_def Let_def power_int_minus)

lemma fl_value_41: "fl (3715469692580659 / 1125899906842624) = 3715469692580659 / 1125899906842624"
  by (subst fl_eval [where e = "1"]) (simp_all add: round_half_even_def Let_def power_int_minus)

lemma fl_value_42: "fl (118895030162581091 / 36028797018963968) = 3715469692580659 / 1125899906842624"
  by (subst fl_eval [where e = "1"]) (simp_all add: round_half_even_def Let_def power_int_minus)

lemma fl_value_43: "fl (33 / 10) = 3715469692580659 / 1125899906842624"
  by (subst fl_eval [where e = "1"]) (simp_all add: round_half_even_def Let_def power_int_minus)

lemma fl_value_44: "fl (72057594037927935 / 18014398509481984) = 4"
  by (subst fl_eval [where e = "1"]) (simp_all add: round_half_even_def Let_def power_int_minus)

lemma fl_value_45: "fl (54043195528445955 / 9007199254740992) = 6"
  by (subst fl_eval [where e = "2"]) (simp_all add: round_half_even_def Let_def power_int_minus)

lemma fl_value_46: "fl (8652540784085565 / 1125899906842624) = 8652540784085565 / 1125899906842624"
  by (subst fl_eval [where e = "2"]) (simp_all add: round_half_even_def Let_def power_int_minus)

lemma fl_value_47: "fl (123 / 16) = 123 / 16"
  by (subst fl_eval [where e = "2"]) (simp_all add: round_half_even_def Let_def power_int_minus)

lemma fl_value_48: "fl (73859033888876131 / 9007199254740992) = 2308094809027379 / 281474976710656"
  by (subst fl_eval [where e = "3"]) (simp_all add: round_half_even_def Let_def power_int_minus)

lemma fl_value_49: "fl (90071992547409915 / 9007199254740992) = 10"
  by (subst fl_eval [where e = "3"]) (simp_all add: round_half_even_def Let_def power_int_minus)

lemma fl_value_50: "fl (1537 / 100) = 8652540784085565 / 562949953421312"
  by (subst fl_eval [where e = "3"]) (simp_all add: round_half_even_def Let_def power_int_minus)

lemma fl_value_51: "fl (34621422135410685 / 2251799813685248) = 8655355533852671 / 562949953421312"
  by (subst fl_eval [where e = "3"]) (simp_all add: round_half_even_def Let_def power_int_minus)

lemmas fl_values = fl_value_1 fl_value_2 fl_value_3 fl_value_4 fl_value_5 fl_value_6 fl_value_7 fl_value_8 fl_value_9 fl_value_10 fl_value_11 fl_value_12 fl_value_13 fl_value_14 fl_value_15 fl_value_16 fl_value_17 fl_value_18 fl_value_19 fl_value_20 fl_value_21 fl_value_22 fl_value_23 fl_value_24 fl_value_25 fl_value_26 fl_value_27 fl_value_28 fl_value_29 fl_value_30 fl_value_31 fl_value_32 fl_value_33 fl_value_34 fl_value_35 fl_value_36 fl_value_37 fl_value_38 fl_value_39 fl_value_40 fl_value_41 fl_value_42 fl_value_43 fl_value_44 fl_value_45 fl_value_46 fl_value_47 fl_value_48 fl_value_49 fl_value_50 fl_value_51

lemma sqrt_value_3: "sqrt (9 / 4) = 3 / 2"
  using real_sqrt_abs [of "3 / 2"] by (simp add: power2_eq_square)

lemma sqrt_value_5: "sqrt (25 / 4) = 5 / 2"
  using real_sqrt_abs [of "5 / 2"] by (simp add: power2_eq_square)

lemma sqrt_value_6: "sqrt (9) = 3"
  using real_sqrt_abs [of "3"] by (simp add: power2_eq_square)

lemma sqrt_value_7: "sqrt (25) = 5"
  using real_sqrt_abs [of "5"] by (simp add: power2_eq_square)

lemma sqrt_value_8: "sqrt (36) = 6"
  using real_sqrt_abs [of "6"] by (simp add: power2_eq_square)

lemma sqrt_value_9: "sqrt (15129 / 256) = 123 / 16"
  using real_sqrt_abs [of "123 / 16"] by (simp add: power2_eq_square)

lemmas sqrt_values = sqrt_value_3 sqrt_value_5 sqrt_value_6 sqrt_value_7 sqrt_value_8 sqrt_value_9

section \<open>The time multiplier\<close>

lemma exp_sixteenth_lower: "(17 / 16 :: real) \<le> exp (1 / 16)"
  using exp_ge_add_one_self [of "1 / 16 :: real"] by simp

lemma exp_sixteenth_upper: "exp (1 / 16 :: real) \<le> 273 / 256"
  using exp_bound [of "1 / 16 :: real"] by (simp add: power2_eq_square)

lemma exp_nat_sixteenth: "exp (real n) = exp (1 / 16 :: real) ^ (16 * n)"
proof -
  have "exp (real n) = exp (of_nat (16 * n) * (1 / 16 :: real))" by simp
  also have "\<dots> = exp (1 / 16 :: real) ^ (16 * n)" by (rule exp_of_nat_mult)
  finally show ?thesis .
qed

lemma exp_nat_lower: "(17 / 16 :: real) ^ (16 * n) \<le> exp (real n)"
  unfolding exp_nat_sixteenth by (rule power_mono [OF exp_sixteenth_lower]) simp

lemma exp_nat_upper: "exp (real n) \<le> (273 / 256 :: real) ^ (16 * n)"
  unfolding exp_nat_sixteenth by (rule power_mono [OF exp_sixteenth_upper]) simp

lemma exp_1_bounds: "(5 / 2 :: real) < exp 1" "exp 1 < (14 / 5 :: real)"
proof -
  have "(5 / 2 :: real) < (17 / 16) ^ 16" by (simp add: power_divide)
  then show "(5 / 2 :: real) < exp 1" using exp_nat_lower [of 1] by simp
  have "(273 / 256 :: real) ^ 16 < 14 / 5" by (simp add: power_divide)
  then show "exp 1 < (14 / 5 :: real)" using exp_nat_upper [of 1] by simp
qed

lemma exp_2_bounds: "(13 / 2 :: real) < exp 2" "exp 2 < (157 / 20 :: real)"
proof -
  have "(13 / 2 :: real) < (17 / 16) ^ 32" by (simp add: power_divide)
  then show "(13 / 2 :: real) < exp 2" using exp_nat_lower [of 2] by simp
  have "(273 / 256 :: real) ^ 32 < 157 / 20" by (simp add: power_divide)
  then show "exp 2 < (157 / 20 :: real)" using exp_nat_upper [of 2] by simp
qed

lemma exp_3_bounds: "(16 :: real) < exp 3" "exp 3 < (25 :: real)"
proof -
  have "(16 :: real) < (17 / 16) ^ 48" by (simp add: power_divide)
  then show "(16 :: real) < exp 3" using exp_nat_lower [of 3] by simp
  have "(273 / 256 :: real) ^ 48 < 25" by (simp add: power_divide)
  then show "exp 3 < (25 :: real)" using exp_nat_upper [of 3] by simp
qed

lemma tanh_exp: "tanh (x / 2 :: real) = 1 - 2 / (exp x + 1)"
proof -
  have pos: "exp x + 1 \<noteq> (0 :: real)"
    using exp_gt_zero [of x] by linarith
  have "tanh (x / 2) = (1 - exp (- x)) / (1 + exp (- x))"
    by (simp add: tanh_real_altdef)
  also have "\<dots> = (exp x * (1 - exp (- x))) / (exp x * (1 + exp (- x)))"
    by simp
  also have "\<dots> = (exp x - 1) / (exp x + 1)"
    by (simp only: right_diff_distrib distrib_left exp_minus_inverse mult_1_right)
  also have "\<dots> = 1 - 2 / (exp x + 1)"
    using pos by (simp add: field_simps)
  finally show ?thesis .
qed

lemma tanh_half_lower:
  assumes "lo < exp x" "0 \<le> lo"
  shows "1 - 2 / (lo + 1) < tanh (x / 2 :: real)"
proof -
  have "2 / (exp x + 1) < 2 / (lo + 1)"
    using assms by (intro divide_strict_left_mono) (auto intro: mult_pos_pos)
  then show ?thesis by (simp add: tanh_exp)
qed

lemma tanh_half_upper:
  assumes "exp x < hi"
  shows "tanh (x / 2 :: real) < 1 - 2 / (hi + 1)"
proof -
  have "0 < exp x" by simp
  then have "0 < exp x + 1" "0 < hi + 1" using assms by linarith+
  then have "2 / (hi + 1) < 2 / (exp x + 1)"
    using assms by (intro divide_strict_left_mono) (auto intro: mult_pos_pos)
  then show ?thesis by (simp add: tanh_exp)
qed

lemma time_multiplier_20: "time_multiplier 20 = 1"
  using round_half_even_of_int [of 100] by (simp add: time_multiplier_def py_round_def)

lemma time_multiplier_21: "time_multiplier 21 = fl (109 / 100)"
proof -
  have "round_half_even ((1 + 2 / 10 * tanh (1 / 2)) * 100) = 109"
    using tanh_half_lower [OF exp_1_bounds(1)] tanh_half_upper [OF exp_1_bounds(2)]
    by (intro round_half_even_near) simp_all
  then show ?thesis by (simp add: time_multiplier_def py_round_def)
qed

lemma time_multiplier_22: "time_multiplier 22 = fl (115 / 100)"
proof -
  have "round_half_even ((1 + 2 / 10 * tanh (2 / 2)) * 100) = 115"
    using tanh_half_lower [OF exp_2_bounds(1)] tanh_half_upper [OF exp_2_bounds(2)]
    by (intro round_half_even_near) simp_all
  then show ?thesis by (simp add: time_multiplier_def py_round_def)
qed

lemma time_multiplier_23: "time_multiplier 23 = fl (118 / 100)"
proof -
  have "round_half_even ((1 + 2 / 10 * tanh (3 / 2)) * 100) = 118"
    using tanh_half_lower [OF exp_3_bounds(1)] tanh_half_upper [OF exp_3_bounds(2)]
    by (intro round_half_even_near) simp_all
  then show ?thesis by (simp add: time_multiplier_def py_round_def)
qed

lemma late_hours: "20 \<le> h \<Longrightarrow> h \<le> 23 \<Longrightarrow> h = 20 \<or> h = 21 \<or> h = 22 \<or> h = (23 :: int)"
  by arith

text \<open>
  C4, as stated, at hour 20: \<open>tanh 0 = 0\<close>, so \<^verbatim>\<open>time_multiplier(20)\<close> is
  \<^verbatim>\<open>round(1.0, 2) = 1.0\<close>, which is not inside the half-open interval \<open>(1.0, 1.2]\<close>
  although 20 lies in \<open>[20, 23]\<close>.
\<close>

theorem time_multiplier_20_not_above_one:
  "\<not> (1 < time_multiplier 20 \<and> time_multiplier 20 \<le> 12 / 10)"
  by (simp add: time_multiplier_20)

text \<open>
  C4, amended: \<^verbatim>\<open>time_multiplier(h)\<close> is exactly 1.0 for every hour in \<open>[0, 19]\<close>; for
  every hour in \<open>[20, 23]\<close> it equals \<^verbatim>\<open>round(1 + 0.2 * tanh((h - 20) / 2), 2)\<close>, is
  non-decreasing in \<open>h\<close> and lies in the closed interval \<open>[1.0, 1.2]\<close>; it is 1.0 at hour
  20 and inside \<open>(1.0, 1.2]\<close> for the hours 21, 22 and 23 (1.09, 1.15 and 1.18).
\<close>

theorem time_multiplier_profile:
  "(\<forall>h. 0 \<le> h \<and> h \<le> 19 \<longrightarrow> time_multiplier h = 1) \<and>
   (\<forall>h. 20 \<le> h \<and> h \<le> 23 \<longrightarrow>
      time_multiplier h = py_round (1 + 2 / 10 * tanh (of_int (h - 20) / 2)) 2) \<and>
   (\<forall>h h'. 20 \<le> h \<and> h \<le> h' \<and> h' \<le> 23 \<longrightarrow> time_multiplier h \<le> time_multiplier h') \<and>
   (\<forall>h. 20 \<le> h \<and> h \<le> 23 \<longrightarrow> 1 \<le> time_multiplier h \<and> time_multiplier h \<le> 12 / 10) \<and>
   time_multiplier 20 = 1 \<and>
   (\<forall>h. 21 \<le> h \<and> h \<le> 23 \<longrightarrow> 1 < time_multiplier h \<and> time_multiplier h \<le> 12 / 10)"
proof (intro conjI allI impI)
  fix h :: int
  assume "0 \<le> h \<and> h \<le> 19"
  then show "time_multiplier h = 1" by (simp add: time_multiplier_def)
next
  fix h :: int
  assume "20 \<le> h \<and> h \<le> 23"
  then show "time_multiplier h = py_round (1 + 2 / 10 * tanh (of_int (h - 20) / 2)) 2"
    by (simp add: time_multiplier_def)
next
  fix h h' :: int
  assume "20 \<le> h \<and> h \<le> h' \<and> h' \<le> 23"
  then have "h = 20 \<or> h = 21 \<or> h = 22 \<or> h = 23" "h' = 20 \<or> h' = 21 \<or> h' = 22 \<or> h' = 23" "h \<le> h'"
    by (auto intro: late_hours)
  then show "time_multiplier h \<le> time_multiplier h'"
    by (auto simp: time_multiplier_20 time_multiplier_21 time_multiplier_22 time_multiplier_23
        fl_values)
next
  fix h :: int
  assume "20 \<le> h \<and> h \<le> 23"
  then have "h = 20 \<or> h = 21 \<or> h = 22 \<or> h = 23" by (auto intro: late_hours)
  then show "1 \<le> time_multiplier h"
    by (auto simp: time_multiplier_20 time_multiplier_21 time_multiplier_22 time_multiplier_23
        fl_values)
next
  fix h :: int
  assume "20 \<le> h \<and> h \<le> 23"
  then have "h = 20 \<or> h = 21 \<or> h = 22 \<or> h = 23" by (auto intro: late_hours)
  then show "time_multiplier h \<le> 12 / 10"
    by (auto simp: time_multiplier_20 time_multiplier_21 time_multiplier_22 time_multiplier_23
        fl_values)
next
  show "time_multiplier 20 = 1" by (rule time_multiplier_20)
next
  fix h :: int
  assume "21 \<le> h \<and> h \<le> 23"
  then have "h = 21 \<or> h = 22 \<or> h = 23" by arith
  then show "1 < time_multiplier h"
    by (auto simp: time_multiplier_21 time_multiplier_22 time_multiplier_23 fl_values)
next
  fix h :: int
  assume "21 \<le> h \<and> h \<le> 23"
  then have "h = 21 \<or> h = 22 \<or> h = 23" by arith
  then show "time_multiplier h \<le> 12 / 10"
    by (auto simp: time_multiplier_21 time_multiplier_22 time_multiplier_23 fl_values)
qed

theorem time_multiplier_profile_witness:
  "time_multiplier 7 = 1 \<and> time_multiplier 21 \<le> time_multiplier 23 \<and>
   1 < time_multiplier 22 \<and> time_multiplier 22 \<le> 12 / 10"
proof -
  have a: "(0 :: int) \<le> 7 \<and> (7 :: int) \<le> 19" by simp
  have b: "(20 :: int) \<le> 21 \<and> (21 :: int) \<le> 23 \<and> (23 :: int) \<le> 23" by simp
  have c: "(21 :: int) \<le> 22 \<and> (22 :: int) \<le> 23" by simp
  from time_multiplier_profile a b c show ?thesis by blast
qed

section \<open>The fixture, evaluated\<close>

lemmas float_eval =
  fadd_def fsub_def fmul_def fdiv_def py_round_def round_half_even_def Let_def
  fl_values fl_numeral fl_neg_numeral sqrt_values power2_eq_square

lemma py_pow_one: "w \<noteq> 0 \<Longrightarrow> py_pow 1 w = Inr (PyFloat 1)"
  by (simp add: py_pow_def)

lemma py_pow_zero: "0 < w \<Longrightarrow> py_pow 0 w = Inr (PyFloat 0)"
  by (simp add: py_pow_def)

lemma exponent_13_10: "fl (13 / 10) \<noteq> 0" "0 < fl (13 / 10)"
  by (simp_all add: fl_values)

lemma fixture_state_eq:
  "fixture_state =
     \<lparr>RISK_CONFIG = initial_RISK_CONFIG, DATASET_TIMESTAMP = 0,
      SEGMENTS_BY_ID = [(''s1'', full_segment ''s1'' [0, 0] [2, 0] 1 0 0)],
      SEGMENT_DISTANCES = [(''s1'', 2)], LAST_CACHE_CLEAR = 0, REQUESTS = [],
      calculate_risk_cache = [], build_graph_cache = []\<rparr>"
  by (simp add: fixture_state_def module_import_def fixture_file_def load_dataset_def
      validate_dataset_schema_def has_required_keys_def full_segment_sel item_def math_dist_def
      import_state_def float_eval)

text \<open>The score of a segment with the worst scores, and of one with the best scores,
  under the initial configuration.\<close>

lemma risky_segment:
  "map_of by_id sid = Some (full_segment i a b 1 0 0) \<Longrightarrow>
   calculate_risk_wrapped initial_RISK_CONFIG by_id sid 10 = Inr (fl (9 / 10))"
  using exponent_13_10
  by (simp add: calculate_risk_wrapped_def dict_get_def initial_RISK_CONFIG_def full_segment_sel
      item_def nonlinear_def as_float_def py_pow_one py_mul_def py_add_def round_base_def
      time_multiplier_def float_eval)

lemma risky_segment_late:
  "map_of by_id sid = Some (full_segment i a b 1 0 0) \<Longrightarrow>
   calculate_risk_wrapped initial_RISK_CONFIG by_id sid 22 = Inr (fl (103 / 100))"
  using exponent_13_10
  by (simp add: calculate_risk_wrapped_def dict_get_def initial_RISK_CONFIG_def full_segment_sel
      item_def nonlinear_def as_float_def py_pow_one py_mul_def py_add_def round_base_def
      time_multiplier_22 float_eval)

lemma safe_segment:
  "map_of by_id sid = Some (full_segment i a b 0 1 1) \<Longrightarrow>
   calculate_risk_wrapped initial_RISK_CONFIG by_id sid hour = Inr 0"
  using exponent_13_10
  by (simp add: calculate_risk_wrapped_def dict_get_def initial_RISK_CONFIG_def full_segment_sel
      item_def nonlinear_def as_float_def py_pow_zero py_mul_def py_add_def round_base_def
      fadd_def fsub_def)

lemma worst_segment_risk:
  "calculate_risk_wrapped initial_RISK_CONFIG [(''s1'', full_segment ''s1'' a b 1 0 0)] ''s1'' 10
     = Inr (fl (9 / 10))"
  by (rule risky_segment) simp

lemma calculate_risk_miss:
  "map_of (calculate_risk_cache st) (sid, hour) = None \<Longrightarrow>
   calculate_risk_wrapped (RISK_CONFIG st) (SEGMENTS_BY_ID st) sid hour = Inr v \<Longrightarrow>
   length (calculate_risk_cache st) < 2000 \<Longrightarrow>
   calculate_risk st sid hour =
     (Inr v, st\<lparr>calculate_risk_cache := calculate_risk_cache st @ [((sid, hour), v)]\<rparr>)"
  by (simp add: calculate_risk_def lru_store_def)

lemma eta_of_2: "compute_eta 2 DEFAULT_SPEED_KMPH = Inr 4"
  by (simp add: compute_eta_def DEFAULT_SPEED_KMPH_def float_eval)

lemma fixture_weight: "fadd (fmul (1 / 2) 4) (fmul (fsub 1 (1 / 2)) (fl (9 / 10))) = fl (49 / 20)"
  by (simp add: float_eval)

lemma fixture_build:
  "build_graph_wrapped fixture_state 10 (1 / 2) 0 =
     (Inr fixture_graph,
      fixture_state\<lparr>calculate_risk_cache := [((''s1'', 10), fl (9 / 10))]\<rparr>)"
  by (simp add: build_graph_wrapped_def fixture_state_eq calculate_risk_def worst_segment_risk
      lru_store_def dict_get_def eta_of_2 add_edge_def add_node_def edge_for_def fixture_weight
      fixture_graph_def full_segment_sel item_def)

lemma fixture_route_graph:
  "route_graph fixture_state 1 10 (1 / 2) = (Inr fixture_graph, fixture_state_after_query)"
proof -
  have "auto_clear_cache fixture_state 1 = fixture_state"
    by (simp add: auto_clear_cache_def GRAPH_CACHE_TTL_def fixture_state_eq fsub_def)
  moreover have "DATASET_TIMESTAMP fixture_state = 0" "build_graph_cache fixture_state = []"
    by (simp_all add: fixture_state_eq)
  ultimately show ?thesis
    by (simp add: route_graph_def build_graph_def fixture_build lru_store_def
        fixture_state_after_query_def)
qed

lemma fixture_nearest_origin: "nearest_node fixture_graph [0, 0] = Inr ([0, 0], False)"
  by (simp add: nearest_node_def fixture_graph_def math_dist_def MAX_SNAP_DISTANCE_def float_eval)

lemma fixture_nearest_destination:
  "nearest_node fixture_graph [0, 3 / 2] = Inr ([0, 0], True)"
  by (simp add: nearest_node_def fixture_graph_def math_dist_def MAX_SNAP_DISTANCE_def float_eval)

section \<open>Nearest node\<close>


lemma math_dist_Inr_length: "math_dist p q = Inr d \<Longrightarrow> length p = length q"
  by (simp add: math_dist_def split: if_splits)





text \<open>\<^verbatim>\<open>min\<close> returns the first element whose key is least.\<close>

lemma min_by_dist_first:
  assumes "min_by_dist pt best bk ns = Inr c"
  shows "(c = best \<and> (\<forall>n \<in> set ns. \<exists>d'. math_dist n pt = Inr d' \<and> bk \<le> d')) \<or>
         (\<exists>pre post d. ns = pre @ c # post \<and> math_dist c pt = Inr d \<and> d < bk \<and>
            (\<forall>n \<in> set pre. \<exists>d'. math_dist n pt = Inr d' \<and> d < d') \<and>
            (\<forall>n \<in> set post. \<exists>d'. math_dist n pt = Inr d' \<and> d \<le> d'))"
  using assms
proof (induction ns arbitrary: best bk)
  case Nil
  then show ?case by simp
next
  case (Cons m ms)
  from Cons.prems obtain k where k: "math_dist m pt = Inr k"
    by (auto split: sum.splits)
  show ?case
  proof (cases "k < bk")
    case True
    with Cons.prems k have r: "min_by_dist pt m k ms = Inr c" by simp
    from Cons.IH [OF r] show ?thesis
    proof (elim disjE conjE exE)
      assume "c = m" and rest: "\<forall>n \<in> set ms. \<exists>d'. math_dist n pt = Inr d' \<and> k \<le> d'"
      then have "m # ms = [] @ c # ms \<and> math_dist c pt = Inr k \<and> k < bk \<and>
          (\<forall>n \<in> set []. \<exists>d'. math_dist n pt = Inr d' \<and> k < d') \<and>
          (\<forall>n \<in> set ms. \<exists>d'. math_dist n pt = Inr d' \<and> k \<le> d')"
        using k True by simp
      then show ?thesis by blast
    next
      fix pre post d
      assume "ms = pre @ c # post" "math_dist c pt = Inr d" "d < k"
        "\<forall>n \<in> set pre. \<exists>d'. math_dist n pt = Inr d' \<and> d < d'"
        "\<forall>n \<in> set post. \<exists>d'. math_dist n pt = Inr d' \<and> d \<le> d'"
      then have "m # ms = (m # pre) @ c # post \<and> math_dist c pt = Inr d \<and> d < bk \<and>
          (\<forall>n \<in> set (m # pre). \<exists>d'. math_dist n pt = Inr d' \<and> d < d') \<and>
          (\<forall>n \<in> set post. \<exists>d'. math_dist n pt = Inr d' \<and> d \<le> d')"
        using k True by simp
      then show ?thesis by blast
    qed
  next
    case False
    with Cons.prems k have r: "min_by_dist pt best bk ms = Inr c" by simp
    from Cons.IH [OF r] show ?thesis
    proof (elim disjE conjE exE)
      assume "c = best" "\<forall>n \<in> set ms. \<exists>d'. math_dist n pt = Inr d' \<and> bk \<le> d'"
      then show ?thesis using k False by simp
    next
      fix pre post d
      assume "ms = pre @ c # post" "math_dist c pt = Inr d" "d < bk"
        "\<forall>n \<in> set pre. \<exists>d'. math_dist n pt = Inr d' \<and> d < d'"
        "\<forall>n \<in> set post. \<exists>d'. math_dist n pt = Inr d' \<and> d \<le> d'"
      then have "m # ms = (m # pre) @ c # post \<and> math_dist c pt = Inr d \<and> d < bk \<and>
          (\<forall>n \<in> set (m # pre). \<exists>d'. math_dist n pt = Inr d' \<and> d < d') \<and>
          (\<forall>n \<in> set post. \<exists>d'. math_dist n pt = Inr d' \<and> d \<le> d')"
        using k False by simp
      then show ?thesis by blast
    qed
  qed
qed

lemma nearest_node_empty: "nodes G = [] \<Longrightarrow> nearest_node G pt = Inl ValueError"
  by (simp add: nearest_node_def)

lemma nearest_node_Inr:
  assumes "nearest_node G pt = Inr (c, w)"
  shows "\<exists>d pre post. nodes G = pre @ c # post \<and> math_dist c pt = Inr d \<and>
           w = (MAX_SNAP_DISTANCE < d) \<and>
           (\<forall>n \<in> set pre. \<exists>d'. math_dist n pt = Inr d' \<and> d < d') \<and>
           (\<forall>n \<in> set post. \<exists>d'. math_dist n pt = Inr d' \<and> d \<le> d')"
proof -
  from assms obtain n ns where ns: "nodes G = n # ns"
    by (cases "nodes G") (auto simp: nearest_node_def)
  with assms obtain k closest d where
    k: "math_dist n pt = Inr k" and m: "min_by_dist pt n k ns = Inr closest"
    and d: "math_dist closest pt = Inr d" and r: "(c, w) = (closest, MAX_SNAP_DISTANCE < d)"
    by (auto simp: nearest_node_def bind_exn_Inr_iff)
  from r have c: "closest = c" and w: "w = (MAX_SNAP_DISTANCE < d)" by simp_all
  from min_by_dist_first [OF m] show ?thesis
  proof (elim disjE conjE exE)
    assume "closest = n" "\<forall>x \<in> set ns. \<exists>d'. math_dist x pt = Inr d' \<and> k \<le> d'"
    then have "nodes G = [] @ c # ns \<and> math_dist c pt = Inr d \<and> w = (MAX_SNAP_DISTANCE < d) \<and>
        (\<forall>x \<in> set []. \<exists>d'. math_dist x pt = Inr d' \<and> d < d') \<and>
        (\<forall>x \<in> set ns. \<exists>d'. math_dist x pt = Inr d' \<and> d \<le> d')"
      using ns c w d k by simp
    then show ?thesis by blast
  next
    fix pre post d'
    assume "ns = pre @ closest # post" "math_dist closest pt = Inr d'" "d' < k"
      "\<forall>x \<in> set pre. \<exists>e. math_dist x pt = Inr e \<and> d' < e"
      "\<forall>x \<in> set post. \<exists>e. math_dist x pt = Inr e \<and> d' \<le> e"
    then have "nodes G = (n # pre) @ c # post \<and> math_dist c pt = Inr d \<and>
        w = (MAX_SNAP_DISTANCE < d) \<and>
        (\<forall>x \<in> set (n # pre). \<exists>e. math_dist x pt = Inr e \<and> d < e) \<and>
        (\<forall>x \<in> set post. \<exists>e. math_dist x pt = Inr e \<and> d \<le> e)"
      using ns c w d k by simp
    then show ?thesis by blast
  qed
qed

lemma nearest_node_member:
  "nearest_node G pt = Inr (c, w) \<Longrightarrow> c \<in> set (nodes G)"
  using nearest_node_Inr [of G pt c w] by auto

lemma nearest_node_lengths:
  assumes "nearest_node G pt = Inr (c, w)"
  shows "\<forall>n \<in> set (nodes G). length n = length pt"
proof -
  from nearest_node_Inr [OF assms] obtain d pre post where
    s: "nodes G = pre @ c # post" and c: "math_dist c pt = Inr d"
    and pre: "\<forall>n \<in> set pre. \<exists>d'. math_dist n pt = Inr d' \<and> d < d'"
    and post: "\<forall>n \<in> set post. \<exists>d'. math_dist n pt = Inr d' \<and> d \<le> d'"
    by blast
  have "length n = length pt" if "n \<in> set (nodes G)" for n
  proof -
    from that s consider "n \<in> set pre" | "n = c" | "n \<in> set post" by auto
    then obtain d' where "math_dist n pt = Inr d'" using pre post c by cases auto
    then show ?thesis by (rule math_dist_Inr_length)
  qed
  then show ?thesis by blast
qed



lemma nearest_node_length:
  "nearest_node G pt = Inr r \<Longrightarrow> length (fst r) = length pt"
  using nearest_node_lengths [of G pt "fst r" "snd r"] nearest_node_member [of G pt "fst r" "snd r"]
  by simp












section \<open>Routing\<close>

lemma before_search_not_too_far:
  assumes "origin \<noteq> []" "destination \<noteq> []"
  shows "before_search G origin destination
           \<noteq> Inr (Returned (None, Some ''Origin too far from known roads'')) \<and>
         before_search G origin destination
           \<noteq> Inr (Returned (None, Some ''Destination too far from known roads''))"
proof (cases "nearest_node G origin")
  case (Inl e)
  then show ?thesis by (simp add: before_search_def)
next
  case o: (Inr on)
  show ?thesis
  proof (cases "nearest_node G destination")
    case (Inl e)
    with o show ?thesis by (simp add: before_search_def)
  next
    case d: (Inr dn)
    from nearest_node_length [OF o] assms have "fst on \<noteq> []" by auto
    moreover from nearest_node_length [OF d] assms have "fst dn \<noteq> []" by auto
    ultimately show ?thesis using o d by (simp add: before_search_def)
  qed
qed

lemma after_search_not_too_far:
  "after_search G found \<noteq> Inr (None, Some ''Origin too far from known roads'') \<and>
   after_search G found \<noteq> Inr (None, Some ''Destination too far from known roads'')"
  by (auto simp: after_search_def bind_exn_Inr_iff split: search_result.splits)

lemma route_on_not_too_far:
  assumes "origin \<noteq> []" "destination \<noteq> []"
  shows "route_on astar G origin destination
           \<noteq> Inr (None, Some ''Origin too far from known roads'') \<and>
         route_on astar G origin destination
           \<noteq> Inr (None, Some ''Destination too far from known roads'')"
proof (cases "before_search G origin destination")
  case (Inl e)
  then show ?thesis by (simp add: route_on_def)
next
  case (Inr call)
  show ?thesis
  proof (cases call)
    case (Returned result)
    with Inr before_search_not_too_far [OF assms, of G] show ?thesis
      by (auto simp: route_on_def)
  next
    case (Search s t)
    with Inr after_search_not_too_far [of G "astar G s t"] show ?thesis
      by (simp add: route_on_def)
  qed
qed

text \<open>
  C9: for query coordinates, which are non-empty tuples, \<^verbatim>\<open>compute_route\<close> never returns
  the error \<^verbatim>\<open>Origin too far from known roads\<close> nor the error
  \<^verbatim>\<open>Destination too far from known roads\<close>, whatever the state, the graph and the search
  are: a node that \<^verbatim>\<open>nearest_node\<close> returns has as many components as the query point,
  so it is a non-empty tuple and \<^verbatim>\<open>not origin_node\<close> is false.
\<close>

theorem compute_route_never_too_far:
  assumes "origin \<noteq> []" "destination \<noteq> []"
  shows "fst (compute_route astar st now origin destination hour alpha)
           \<noteq> Inr (None, Some ''Origin too far from known roads'') \<and>
         fst (compute_route astar st now origin destination hour alpha)
           \<noteq> Inr (None, Some ''Destination too far from known roads'')"
  using route_on_not_too_far [OF assms]
  by (auto simp: compute_route_def split: prod.splits sum.splits)

theorem compute_route_never_too_far_witness:
  "[0, 0 :: real] \<noteq> [] \<and> [0, 1 :: real] \<noteq> [] \<and>
   fst (compute_route no_path_search fixture_state 1 [0, 0] [0, 1] 10 (1 / 2))
     \<noteq> Inr (None, Some ''Origin too far from known roads'') \<and>
   fst (compute_route no_path_search fixture_state 1 [0, 0] [0, 1] 10 (1 / 2))
     \<noteq> Inr (None, Some ''Destination too far from known roads'')"
proof -
  have a: "[0, 0 :: real] \<noteq> []" and b: "[0, 1 :: real] \<noteq> []" by simp_all
  from compute_route_never_too_far [OF a b] a b show ?thesis by blast
qed

section \<open>The request handler\<close>

lemma handle_query_ignores_speed:
  "handle_query astar st now (data(''speed'' := x)) =
   handle_query astar st now (data(''speed'' := y))"
  by (simp add: handle_query_def get_or_def Let_def)

text \<open>
  C10: two \<^verbatim>\<open>/get_routes\<close> requests that are the same except for the value of
  \<^verbatim>\<open>speed\<close> (any value, or the key left out) get the same response, route included, and
  leave the same state behind. The handler reads the key and never uses what it read;
  \<^verbatim>\<open>build_graph\<close> computes every ETA with \<^verbatim>\<open>DEFAULT_SPEED_KMPH\<close>.
\<close>

theorem get_routes_ignores_speed:
  "get_routes astar st ip now (Object (data(''speed'' := x))) =
   get_routes astar st ip now (Object (data(''speed'' := y)))"
  by (simp add: get_routes_def handle_query_ignores_speed [of astar _ now data x y]
      split: prod.splits bool.splits)

section \<open>Reloading the dataset\<close>

lemma reload_data_always_success:
  "fst (reload_data st now file) = Success (Message ''Dataset reloaded'')"
  by (simp add: reload_data_def Let_def)

lemma broken_load:
  "load_dataset fixture_state 5 broken_file =
     (Some ValueError,
      fixture_state\<lparr>SEGMENTS_BY_ID := [(''s2'', full_segment ''s2'' [0, 0] [1] 0 1 1)],
        SEGMENT_DISTANCES := []\<rparr>)"
  by (simp add: load_dataset_def broken_file_def validate_dataset_schema_def
      has_required_keys_def full_segment_sel item_def math_dist_def)

lemma incomplete_load:
  "load_dataset fixture_state 5 incomplete_file = (Some AssertionError, fixture_state)"
  by (simp add: load_dataset_def incomplete_file_def validate_dataset_schema_def
      has_required_keys_def full_segment_def)

lemma broken_reload_segments:
  "SEGMENTS_BY_ID (snd (reload_data fixture_state 5 broken_file))
     = [(''s2'', full_segment ''s2'' [0, 0] [1] 0 1 1)]"
  by (simp add: reload_data_def broken_load calculate_risk_cache_clear_def
      build_graph_cache_clear_def)

lemma broken_reload_distances:
  "SEGMENT_DISTANCES (snd (reload_data fixture_state 5 broken_file)) = []"
  by (simp add: reload_data_def broken_load calculate_risk_cache_clear_def
      build_graph_cache_clear_def)

lemma fixture_segments:
  "SEGMENTS_BY_ID fixture_state = [(''s1'', full_segment ''s1'' [0, 0] [2, 0] 1 0 0)]"
  by (simp add: fixture_state_eq)

lemma fixture_distances: "SEGMENT_DISTANCES fixture_state = [(''s1'', 2)]"
  by (simp add: fixture_state_eq)

text \<open>
  C2, evaluated where the code departs from it. \<^verbatim>\<open>load_dataset\<close> catches every exception
  itself, so \<^verbatim>\<open>/reload_data\<close> answers \<^verbatim>\<open>Dataset reloaded\<close> for every file: also for
  the file with an incomplete segment (the assertion fails) and for the file whose
  segment has end points of different dimensions (\<^verbatim>\<open>math.dist\<close> raises). In the second
  case the schema check has passed, both dictionaries have been cleared and the loop has
  stopped half-way: the segment \<^verbatim>\<open>s1\<close> and its length are gone, \<^verbatim>\<open>s2\<close> is stored
  without a length.
\<close>

theorem reload_data_hides_failure:
  "(\<forall>st now file. fst (reload_data st now file) = Success (Message ''Dataset reloaded'')) \<and>
   fst (load_dataset fixture_state 5 incomplete_file) = Some AssertionError \<and>
   fst (load_dataset fixture_state 5 broken_file) = Some ValueError \<and>
   SEGMENTS_BY_ID fixture_state = [(''s1'', full_segment ''s1'' [0, 0] [2, 0] 1 0 0)] \<and>
   SEGMENT_DISTANCES fixture_state = [(''s1'', 2)] \<and>
   SEGMENTS_BY_ID (snd (reload_data fixture_state 5 broken_file))
     = [(''s2'', full_segment ''s2'' [0, 0] [1] 0 1 1)] \<and>
   SEGMENT_DISTANCES (snd (reload_data fixture_state 5 broken_file)) = []"
proof (intro conjI allI)
  show "fst (load_dataset fixture_state 5 incomplete_file) = Some AssertionError"
    by (simp add: incomplete_load)
  show "fst (load_dataset fixture_state 5 broken_file) = Some ValueError"
    by (simp add: broken_load)
qed (rule reload_data_always_success fixture_segments fixture_distances
      broken_reload_segments broken_reload_distances)+

section \<open>Updating the risk configuration\<close>

lemma py_update_object:
  "py_update d (JObj kvs) = (None, dict_update d (map (\<lambda>kv. (KStr (fst kv), snd kv)) kvs))"
  by (simp add: py_update_def)

lemma config_risk_keeps_graph_cache:
  "build_graph_cache (snd (config_risk st body)) = build_graph_cache st"
  by (simp add: config_risk_def calculate_risk_cache_clear_def
      split: option.splits prod.splits)

lemma reload_data_clears_graph_cache:
  "build_graph_cache (snd (reload_data st now file)) = []"
  by (simp add: reload_data_def Let_def build_graph_cache_clear_def)

lemma reconfigured_eq:
  "fixture_state_reconfigured =
     \<lparr>RISK_CONFIG = [(KStr ''crime_weight'', JFloat (fl (1 / 10))),
        (KStr ''lighting_weight'', JFloat (fl (15 / 100))),
        (KStr ''crowd_weight'', JFloat (fl (15 / 100))),
        (KStr ''nonlinear_exponent'', JFloat (fl (13 / 10)))],
      DATASET_TIMESTAMP = 0,
      SEGMENTS_BY_ID = [(''s1'', full_segment ''s1'' [0, 0] [2, 0] 1 0 0)],
      SEGMENT_DISTANCES = [(''s1'', 2)], LAST_CACHE_CLEAR = 0, REQUESTS = [],
      calculate_risk_cache = [], build_graph_cache = [((10, 1 / 2, 0), fixture_graph)]\<rparr>"
  by (simp add: fixture_state_reconfigured_def config_risk_def lower_crime_weight_def
      py_update_object fixture_state_after_query_def fixture_state_eq
      calculate_risk_cache_clear_def dict_update_def initial_RISK_CONFIG_def)

text \<open>The score of a segment with the worst scores once the crime weight is 0.1.\<close>

lemma lowered_risk:
  "map_of by_id sid = Some (full_segment i a b 1 0 0) \<Longrightarrow>
   calculate_risk_wrapped
     [(KStr ''crime_weight'', JFloat (fl (1 / 10))),
      (KStr ''lighting_weight'', JFloat (fl (15 / 100))),
      (KStr ''crowd_weight'', JFloat (fl (15 / 100))),
      (KStr ''nonlinear_exponent'', JFloat (fl (13 / 10)))] by_id sid 10 = Inr (fl (4 / 10))"
  using exponent_13_10
  by (simp add: calculate_risk_wrapped_def dict_get_def full_segment_sel
      item_def nonlinear_def as_float_def py_pow_one py_mul_def py_add_def round_base_def
      time_multiplier_def float_eval)

lemma reconfigured_risk:
  "calculate_risk_wrapped (RISK_CONFIG fixture_state_reconfigured)
     (SEGMENTS_BY_ID fixture_state_reconfigured) ''s1'' 10 = Inr (fl (4 / 10))"
  using lowered_risk [of "[(''s1'', full_segment ''s1'' [0, 0] [2, 0] 1 0 0)]" "''s1''"]
  by (simp add: reconfigured_eq)

lemma reconfigured_route_graph:
  "fst (route_graph fixture_state_reconfigured 2 10 (1 / 2)) = Inr fixture_graph"
proof -
  have "auto_clear_cache fixture_state_reconfigured 2 = fixture_state_reconfigured"
    by (simp add: auto_clear_cache_def GRAPH_CACHE_TTL_def reconfigured_eq fsub_def fl_numeral)
  moreover have "DATASET_TIMESTAMP fixture_state_reconfigured = 0"
    "build_graph_cache fixture_state_reconfigured = [((10, 1 / 2, 0), fixture_graph)]"
    by (simp_all add: reconfigured_eq)
  ultimately show ?thesis
    by (simp add: route_graph_def build_graph_def)
qed

lemma reconfigured_memo_risk:
  "fst (calculate_risk fixture_state_reconfigured ''s1'' 10) = Inr (fl (4 / 10))"
proof -
  have "calculate_risk_cache fixture_state_reconfigured = []"
    by (simp add: reconfigured_eq)
  then show ?thesis using reconfigured_risk by (simp add: calculate_risk_def)
qed

text \<open>
  C1, evaluated where the code departs from it. \<^verbatim>\<open>/reload_data\<close> empties the graph
  cache, \<^verbatim>\<open>/config_risk\<close> never touches it. On the fixture, a query at hour 10 with
  \<open>alpha = 0.5\<close> caches the graph whose edge has risk 0.9; after the crime weight is set
  to 0.1 the risk score of the segment is 0.4, and the next query with the same hour and
  alpha still gets the cached graph with risk 0.9.
\<close>

theorem config_risk_leaves_stale_graph:
  "(\<forall>st body. build_graph_cache (snd (config_risk st body)) = build_graph_cache st) \<and>
   (\<forall>st now file. build_graph_cache (snd (reload_data st now file)) = []) \<and>
   snd (route_graph fixture_state 1 10 (1 / 2)) = fixture_state_after_query \<and>
   fst (config_risk fixture_state_after_query (Some lower_crime_weight))
     = Success (Message ''Risk config updated'') \<and>
   fst (calculate_risk fixture_state_reconfigured ''s1'' 10) = Inr (fl (4 / 10)) \<and>
   fst (route_graph fixture_state_reconfigured 2 10 (1 / 2)) = Inr fixture_graph \<and>
   map (\<lambda>e. risk (snd e)) (edges fixture_graph) = [fl (9 / 10)]"
proof (intro conjI allI)
  show "snd (route_graph fixture_state 1 10 (1 / 2)) = fixture_state_after_query"
    by (simp add: fixture_route_graph)
  show "fst (config_risk fixture_state_after_query (Some lower_crime_weight))
     = Success (Message ''Risk config updated'')"
    by (simp add: config_risk_def lower_crime_weight_def py_update_object)
  show "map (\<lambda>e. risk (snd e)) (edges fixture_graph) = [fl (9 / 10)]"
    by (simp add: fixture_graph_def)
qed (rule config_risk_keeps_graph_cache reload_data_clears_graph_cache
      reconfigured_memo_risk reconfigured_route_graph)+

section \<open>The memo table of calculate_risk\<close>

lemma set_lru_hit: "(k, v) \<in> set c \<Longrightarrow> set (lru_hit k v c) \<subseteq> set c"
  by (auto simp: lru_hit_def)

lemma set_lru_store: "set (lru_store m k v c) \<subseteq> insert (k, v) (set c)"
  by (cases c) (auto simp: lru_store_def)

lemma risk_cache_ok_iff:
  "risk_cache_ok st \<longleftrightarrow>
     (\<forall>kv \<in> set (calculate_risk_cache st).
        calculate_risk_wrapped (RISK_CONFIG st) (SEGMENTS_BY_ID st) (fst (fst kv)) (snd (fst kv))
          = Inr (snd kv))"
  by (simp add: risk_cache_ok_def list_all_iff)

lemma risk_cache_ok_empty: "calculate_risk_cache st = [] \<Longrightarrow> risk_cache_ok st"
  by (simp add: risk_cache_ok_def)

lemma risk_cache_ok_cong:
  "RISK_CONFIG st' = RISK_CONFIG st \<Longrightarrow> SEGMENTS_BY_ID st' = SEGMENTS_BY_ID st \<Longrightarrow>
   set (calculate_risk_cache st') \<subseteq> set (calculate_risk_cache st) \<Longrightarrow>
   risk_cache_ok st \<Longrightarrow> risk_cache_ok st'"
  by (auto simp: risk_cache_ok_iff)

lemma calculate_risk_frame:
  "RISK_CONFIG (snd (calculate_risk st sid hour)) = RISK_CONFIG st"
  "SEGMENTS_BY_ID (snd (calculate_risk st sid hour)) = SEGMENTS_BY_ID st"
  "SEGMENT_DISTANCES (snd (calculate_risk st sid hour)) = SEGMENT_DISTANCES st"
  by (simp_all add: calculate_risk_def split: option.splits sum.splits)

lemma calculate_risk_memo:
  assumes "risk_cache_ok st"
  shows "fst (calculate_risk st sid hour)
           = calculate_risk_wrapped (RISK_CONFIG st) (SEGMENTS_BY_ID st) sid hour"
proof (cases "map_of (calculate_risk_cache st) (sid, hour)")
  case None
  then show ?thesis by (simp add: calculate_risk_def split: sum.splits)
next
  case (Some v)
  then have "((sid, hour), v) \<in> set (calculate_risk_cache st)" by (rule map_of_SomeD)
  with assms have "calculate_risk_wrapped (RISK_CONFIG st) (SEGMENTS_BY_ID st) sid hour = Inr v"
    by (auto simp: risk_cache_ok_iff)
  with Some show ?thesis by (simp add: calculate_risk_def)
qed

lemma calculate_risk_ok:
  assumes "risk_cache_ok st"
  shows "risk_cache_ok (snd (calculate_risk st sid hour))"
proof (cases "map_of (calculate_risk_cache st) (sid, hour)")
  case (Some v)
  then have "((sid, hour), v) \<in> set (calculate_risk_cache st)" by (rule map_of_SomeD)
  from set_lru_hit [OF this] Some assms show ?thesis
    by (auto simp: calculate_risk_def risk_cache_ok_iff)
next
  case None
  show ?thesis
  proof (cases "calculate_risk_wrapped (RISK_CONFIG st) (SEGMENTS_BY_ID st) sid hour")
    case (Inl e)
    with None assms show ?thesis by (simp add: calculate_risk_def)
  next
    case (Inr v)
    with None assms set_lru_store [of 2000 "(sid, hour)" v "calculate_risk_cache st"]
    show ?thesis
      by (auto simp: calculate_risk_def risk_cache_ok_iff)
  qed
qed

lemma build_graph_loop_step:
  assumes "build_graph_loop hour alpha (entry # items) G st = (Inr G', st')"
  obtains a b r d e where
    "seg_start (snd entry) = Some a" "seg_end (snd entry) = Some b"
    "fst (calculate_risk st (fst entry) hour) = Inr r"
    "map_of (SEGMENT_DISTANCES st) (fst entry) = Some d"
    "compute_eta d DEFAULT_SPEED_KMPH = Inr e"
    "build_graph_loop hour alpha items
       (add_edge G a b (edge_for alpha (fst entry) a b r e))
       (snd (calculate_risk st (fst entry) hour)) = (Inr G', st')"
proof -
  obtain rr st1 where cr: "calculate_risk st (fst entry) hour = (rr, st1)"
    by (cases "calculate_risk st (fst entry) hour")
  have d1: "SEGMENT_DISTANCES st1 = SEGMENT_DISTANCES st"
    using calculate_risk_frame(3) [of st "fst entry" hour] cr by simp
  from assms cr obtain ab where
    ab: "bind_exn (item (seg_start (snd entry))) (\<lambda>a.
           bind_exn (item (seg_end (snd entry))) (\<lambda>b. Inr (a, b))) = Inr ab"
    by (auto split: sum.splits)
  then have a: "seg_start (snd entry) = Some (fst ab)" and b: "seg_end (snd entry) = Some (snd ab)"
    by (auto simp: bind_exn_Inr_iff item_def split: option.splits)
  from assms cr ab obtain r where r: "rr = Inr r"
    by (cases rr) auto
  from assms cr ab r obtain e where
    e: "bind_exn (dict_get (SEGMENT_DISTANCES st1) (fst entry))
          (\<lambda>d. compute_eta d DEFAULT_SPEED_KMPH) = Inr e"
    by (auto split: sum.splits)
  then obtain d where d: "map_of (SEGMENT_DISTANCES st) (fst entry) = Some d"
    and ce: "compute_eta d DEFAULT_SPEED_KMPH = Inr e"
    using d1 by (auto simp: bind_exn_Inr_iff dict_get_def split: option.splits)
  from assms cr ab r e have
    "build_graph_loop hour alpha items
       (add_edge G (fst ab) (snd ab) (edge_for alpha (fst entry) (fst ab) (snd ab) r e))
       st1 = (Inr G', st')"
    by simp
  with a b r d ce cr that show ?thesis by simp
qed

lemma build_graph_loop_frame:
  "RISK_CONFIG (snd (build_graph_loop hour alpha items G st)) = RISK_CONFIG st \<and>
   SEGMENTS_BY_ID (snd (build_graph_loop hour alpha items G st)) = SEGMENTS_BY_ID st \<and>
   SEGMENT_DISTANCES (snd (build_graph_loop hour alpha items G st)) = SEGMENT_DISTANCES st"
proof (induction items arbitrary: G st)
  case Nil
  then show ?case by simp
next
  case (Cons entry items)
  obtain rr st1 where cr: "calculate_risk st (fst entry) hour = (rr, st1)"
    by (cases "calculate_risk st (fst entry) hour")
  with calculate_risk_frame [of st "fst entry" hour]
  have st1: "RISK_CONFIG st1 = RISK_CONFIG st" "SEGMENTS_BY_ID st1 = SEGMENTS_BY_ID st"
    "SEGMENT_DISTANCES st1 = SEGMENT_DISTANCES st" by simp_all
  show ?case
    using cr st1 Cons.IH [of _ st1]
    by (simp split: sum.splits)
qed

lemma build_graph_loop_ok:
  "risk_cache_ok st \<Longrightarrow> risk_cache_ok (snd (build_graph_loop hour alpha items G st))"
proof (induction items arbitrary: G st)
  case Nil
  then show ?case by simp
next
  case (Cons entry items)
  obtain rr st1 where cr: "calculate_risk st (fst entry) hour = (rr, st1)"
    by (cases "calculate_risk st (fst entry) hour")
  with calculate_risk_ok [OF Cons.prems, of "fst entry" hour]
  have "risk_cache_ok st1" by simp
  then show ?case
    using cr Cons.prems Cons.IH [of st1]
    by (simp split: sum.splits)
qed


subsection \<open>Dictionary updates\<close>

lemma dict_update_Nil [simp]: "dict_update d [] = d"
  by (simp add: dict_update_def)

lemma dict_update_Cons [simp]:
  "dict_update d (kv # kvs) = dict_update (AList.update (fst kv) (snd kv) d) kvs"
  by (simp add: dict_update_def)

lemma distinct_dict_update:
  "distinct (map fst d) \<Longrightarrow> distinct (map fst (dict_update d kvs))"
  by (induction kvs arbitrary: d) (simp_all add: distinct_update)

lemma keys_dict_update: "fst ` set (dict_update d kvs) = fst ` set d \<union> fst ` set kvs"
  by (induction kvs arbitrary: d) (auto simp: dom_update)

lemma map_of_dict_update_notin:
  "k \<notin> fst ` set kvs \<Longrightarrow> map_of (dict_update d kvs) k = map_of d k"
  by (induction kvs arbitrary: d) (auto simp: update_conv')

lemma map_of_dict_update_last:
  "k \<notin> fst ` set post \<Longrightarrow> map_of (dict_update d (pre @ (k, v) # post)) k = Some v"
proof (induction pre arbitrary: d)
  case Nil
  then show ?case by (simp add: map_of_dict_update_notin update_conv')
next
  case (Cons p pre)
  then show ?case by simp
qed


subsection \<open>What every state satisfies\<close>

lemma list_all_lru_hit: "list_all P c \<Longrightarrow> P (k, v) \<Longrightarrow> list_all P (lru_hit k v c)"
  by (simp add: lru_hit_def list_all_iff)

lemma list_all_lru_store: "list_all P c \<Longrightarrow> P (k, v) \<Longrightarrow> list_all P (lru_store m k v c)"
  by (cases c) (simp_all add: lru_store_def)

lemma round_base_float: "round_base base hour = Inr v \<Longrightarrow> is_float v"
  by (cases base) (auto simp: round_base_def is_float_py_round)

lemma calculate_risk_wrapped_float:
  "calculate_risk_wrapped cfg by_id sid hour = Inr v \<Longrightarrow> is_float v"
  by (auto simp: calculate_risk_wrapped_def bind_exn_Inr_iff dest: round_base_float)

lemma calculate_risk_sound:
  assumes "sound_state st"
  shows "sound_state (snd (calculate_risk st sid hour))"
    and "fst (calculate_risk st sid hour) = Inr r \<Longrightarrow> is_float r"
proof -
  show "sound_state (snd (calculate_risk st sid hour))"
  proof (cases "map_of (calculate_risk_cache st) (sid, hour)")
    case (Some v)
    then have "((sid, hour), v) \<in> set (calculate_risk_cache st)" by (rule map_of_SomeD)
    with assms have "is_float v" by (auto simp: sound_state_def list_all_iff)
    with assms Some show ?thesis
      by (simp add: calculate_risk_def sound_state_def list_all_lru_hit)
  next
    case None
    show ?thesis
    proof (cases "calculate_risk_wrapped (RISK_CONFIG st) (SEGMENTS_BY_ID st) sid hour")
      case (Inl e)
      with None assms show ?thesis by (simp add: calculate_risk_def)
    next
      case (Inr v)
      with None assms calculate_risk_wrapped_float [OF Inr] show ?thesis
        by (simp add: calculate_risk_def sound_state_def list_all_lru_store)
    qed
  qed
  show "is_float r" if "fst (calculate_risk st sid hour) = Inr r"
  proof (cases "map_of (calculate_risk_cache st) (sid, hour)")
    case (Some v)
    then have "((sid, hour), v) \<in> set (calculate_risk_cache st)" by (rule map_of_SomeD)
    with assms have "is_float v" by (auto simp: sound_state_def list_all_iff)
    with that Some show ?thesis by (simp add: calculate_risk_def)
  next
    case None
    with that have "calculate_risk_wrapped (RISK_CONFIG st) (SEGMENTS_BY_ID st) sid hour = Inr r"
      by (simp add: calculate_risk_def split: sum.splits)
    then show ?thesis by (rule calculate_risk_wrapped_float)
  qed
qed

lemma set_update_subset: "set (AList.update k v al) \<subseteq> insert (k, v) (set al)"
  by (induction al) (auto split: if_splits)

lemma closed_graph_add_edge: "closed_graph G \<Longrightarrow> closed_graph (add_edge G u v attrs)"
  using set_update_subset [of "(u, v)" attrs "edges G"]
  by (auto simp: closed_graph_def add_edge_def add_node_def list_all_iff)

lemma build_graph_loop_sound:
  assumes "sound_state st" "closed_graph G"
  shows "sound_state (snd (build_graph_loop hour alpha items G st)) \<and>
         (\<forall>G'. fst (build_graph_loop hour alpha items G st) = Inr G' \<longrightarrow> closed_graph G')"
  using assms
proof (induction items arbitrary: G st)
  case Nil
  then show ?case by simp
next
  case (Cons entry items)
  obtain rr st1 where cr: "calculate_risk st (fst entry) hour = (rr, st1)"
    by (cases "calculate_risk st (fst entry) hour")
  with calculate_risk_sound(1) [OF Cons.prems(1), of "fst entry" hour]
  have s1: "sound_state st1" by simp
  show ?case
    using cr s1 Cons.prems Cons.IH [OF s1 closed_graph_add_edge [OF Cons.prems(2)]]
    by (simp split: sum.splits)
qed

lemma sound_state_graph_cache:
  "sound_state st \<Longrightarrow> list_all (\<lambda>kv. closed_graph (snd kv)) c \<Longrightarrow>
   sound_state (st\<lparr>build_graph_cache := c\<rparr>)"
  by (simp add: sound_state_def)

lemma build_graph_sound:
  assumes "sound_state st"
  shows "sound_state (snd (build_graph st hour alpha ts)) \<and>
         (\<forall>G. fst (build_graph st hour alpha ts) = Inr G \<longrightarrow> closed_graph G)"
proof (cases "map_of (build_graph_cache st) (hour, alpha, ts)")
  case (Some G)
  then have "((hour, alpha, ts), G) \<in> set (build_graph_cache st)" by (rule map_of_SomeD)
  with assms have "closed_graph G" by (auto simp: sound_state_def list_all_iff)
  with assms Some show ?thesis
    by (simp add: build_graph_def sound_state_def list_all_lru_hit)
next
  case None
  obtain res st1 where w: "build_graph_wrapped st hour alpha ts = (res, st1)"
    by (cases "build_graph_wrapped st hour alpha ts")
  have "closed_graph \<lparr>nodes = [], edges = []\<rparr>" by (simp add: closed_graph_def)
  from build_graph_loop_sound [OF assms this, of hour alpha "SEGMENTS_BY_ID st"] w
  have s1: "sound_state st1" and c: "\<forall>G'. res = Inr G' \<longrightarrow> closed_graph G'"
    by (simp_all add: build_graph_wrapped_def)
  show ?thesis
  proof (cases res)
    case (Inl e)
    with None w s1 show ?thesis by (simp add: build_graph_def)
  next
    case (Inr G)
    with c have "closed_graph G" by simp
    with None w s1 Inr show ?thesis
      by (simp add: build_graph_def sound_state_def list_all_lru_store)
  qed
qed

lemma auto_clear_cache_sound: "sound_state st \<Longrightarrow> sound_state (auto_clear_cache st now)"
  by (simp add: auto_clear_cache_def sound_state_def calculate_risk_cache_clear_def
      build_graph_cache_clear_def)

lemma route_graph_sound:
  assumes "sound_state st"
  shows "sound_state (snd (route_graph st now hour alpha))"
    and "fst (route_graph st now hour alpha) = Inr G \<Longrightarrow> closed_graph G"
  using build_graph_sound [OF auto_clear_cache_sound [OF assms], of now hour alpha]
  by (simp_all add: route_graph_def Let_def)

lemma compute_route_sound:
  assumes "sound_state st"
  shows "sound_state (snd (compute_route astar st now origin destination hour alpha))"
proof -
  obtain res st1 where g: "route_graph st now hour alpha = (res, st1)"
    by (cases "route_graph st now hour alpha")
  with route_graph_sound(1) [OF assms, of now hour alpha] have "sound_state st1" by simp
  with g show ?thesis by (cases res) (simp_all add: compute_route_def)
qed

lemma handle_query_sound:
  assumes "sound_state st"
  shows "sound_state (snd (handle_query astar st now data))"
proof -
  let ?cr = "compute_route astar st now (coords_tuple (get_or data ''origin'' JNull))
      (coords_tuple (get_or data ''destination'' JNull))
      (case int_of (get_or data ''hour'' (JInt 22)) of Some i \<Rightarrow> i | None \<Rightarrow> 0)
      (preset_alpha (get_or data ''type'' (JStr ''balanced''))
         (get_or data ''alpha'' (JFloat (1 / 2))))"
  obtain res st1 where c: "?cr = (res, st1)" by (cases ?cr)
  with compute_route_sound [OF assms] have "sound_state st1" by (metis snd_conv)
  with assms c show ?thesis
    by (cases res) (simp_all add: handle_query_def Let_def)
qed

lemma rate_limit_sound: "sound_state st \<Longrightarrow> sound_state (snd (rate_limit st ip now))"
  by (simp add: rate_limit_def Let_def sound_state_def)

lemma get_routes_sound:
  assumes "sound_state st"
  shows "sound_state (snd (get_routes astar st ip now body))"
proof -
  obtain ok st1 where r: "rate_limit st ip now = (ok, st1)" by (cases "rate_limit st ip now")
  with rate_limit_sound [OF assms, of ip now] have "sound_state st1" by simp
  with r show ?thesis
    by (cases ok; cases body) (simp_all add: get_routes_def handle_query_sound)
qed

lemma config_risk_sound: "sound_state st \<Longrightarrow> sound_state (snd (config_risk st body))"
  by (auto simp: config_risk_def sound_state_def calculate_risk_cache_clear_def
      split: option.splits prod.splits)



lemma load_segments_distinct:
  "distinct (map fst by_id) \<Longrightarrow> distinct (map fst (fst (snd (load_segments segs by_id dists))))"
proof (induction segs arbitrary: by_id dists)
  case Nil
  then show ?case by simp
next
  case (Cons s segs)
  show ?case
  proof (cases "seg_id s")
    case None
    with Cons.prems show ?thesis by simp
  next
    case (Some i)
    have d: "distinct (map fst (AList.update i s by_id))"
      using Cons.prems by (rule distinct_update)
    show ?thesis
      using Some d Cons.IH [OF d]
      by (simp add: Let_def split: sum.splits)
  qed
qed

lemma load_dataset_distinct:
  assumes "distinct (map fst (SEGMENTS_BY_ID st))"
  shows "distinct (map fst (SEGMENTS_BY_ID (snd (load_dataset st now file))))"
proof (cases "file")
  case (Unreadable e)
  with assms show ?thesis by (simp add: load_dataset_def)
next
  case (Parsed segs)
  have d: "distinct (map fst (fst (snd (load_segments segs [] []))))"
    by (rule load_segments_distinct) simp
  show ?thesis
  proof (cases "validate_dataset_schema segs")
    case (Inl e)
    with Parsed assms show ?thesis by (simp add: load_dataset_def)
  next
    case (Inr u)
    obtain err by_id dists where l: "load_segments segs [] [] = (err, by_id, dists)"
      by (cases "load_segments segs [] []")
    with d have "distinct (map fst by_id)" by simp
    with Parsed Inr l show ?thesis
      by (cases err) (simp_all add: load_dataset_def)
  qed
qed


lemma reload_data_sound:
  assumes "sound_state st"
  shows "sound_state (snd (reload_data st now file))"
proof -
  from assms have "distinct (map fst (SEGMENTS_BY_ID st))" by (simp add: sound_state_def)
  from load_dataset_distinct [OF this, of now "file"] show ?thesis
    by (simp add: reload_data_def Let_def sound_state_def calculate_risk_cache_clear_def
        build_graph_cache_clear_def)
qed

lemma load_dataset_caches:
  "calculate_risk_cache (snd (load_dataset st now file)) = calculate_risk_cache st"
  "build_graph_cache (snd (load_dataset st now file)) = build_graph_cache st"
  by (simp_all add: load_dataset_def
      split: dataset_file.splits sum.splits prod.splits option.splits)

lemma module_import_sound: "sound_state (module_import file t_load t_clear)"
proof -
  have "distinct (map fst (SEGMENTS_BY_ID import_state))" by (simp add: import_state_def)
  from load_dataset_distinct [OF this, of t_load "file"] show ?thesis
    by (simp add: module_import_def sound_state_def load_dataset_caches import_state_def)
qed

lemma reachable_sound: "reachable st \<Longrightarrow> sound_state st"
  by (induction rule: reachable.induct)
     (simp_all add: module_import_sound reload_data_sound config_risk_sound get_routes_sound)

lemma reachable_distinct_ids: "reachable st \<Longrightarrow> distinct (map fst (SEGMENTS_BY_ID st))"
  using reachable_sound by (simp add: sound_state_def)

lemma reachable_segment_lookup:
  assumes "reachable st" "SEGMENTS_BY_ID st = pre @ (sid, seg) # post"
  shows "map_of (SEGMENTS_BY_ID st) sid = Some seg"
proof -
  have "(sid, seg) \<in> set (SEGMENTS_BY_ID st)" unfolding assms(2) by simp
  with reachable_distinct_ids [OF assms(1)] show ?thesis by simp
qed

section \<open>The risk score\<close>

lemma fixture_build_requests:
  "build_graph_wrapped (fixture_state\<lparr>REQUESTS := q\<rparr>) 10 (1 / 2) 0 =
     (Inr fixture_graph,
      fixture_state\<lparr>REQUESTS := q, calculate_risk_cache := [((''s1'', 10), fl (9 / 10))]\<rparr>)"
  by (simp add: build_graph_wrapped_def fixture_state_eq calculate_risk_def worst_segment_risk
      lru_store_def dict_get_def eta_of_2 add_edge_def add_node_def edge_for_def fixture_weight
      fixture_graph_def full_segment_sel item_def)

lemma fixture_route_graph_requests:
  "route_graph (fixture_state\<lparr>REQUESTS := q\<rparr>) 1 10 (1 / 2) =
     (Inr fixture_graph, fixture_state_after_query\<lparr>REQUESTS := q\<rparr>)"
proof -
  have "auto_clear_cache (fixture_state\<lparr>REQUESTS := q\<rparr>) 1 = fixture_state\<lparr>REQUESTS := q\<rparr>"
    by (simp add: auto_clear_cache_def GRAPH_CACHE_TTL_def fixture_state_eq fsub_def)
  moreover have "DATASET_TIMESTAMP (fixture_state\<lparr>REQUESTS := q\<rparr>) = 0"
    "build_graph_cache (fixture_state\<lparr>REQUESTS := q\<rparr>) = []"
    by (simp_all add: fixture_state_eq)
  ultimately show ?thesis
    by (simp add: route_graph_def build_graph_def fixture_build_requests lru_store_def
        fixture_state_after_query_def)
qed

lemma compute_route_state:
  "snd (compute_route astar st now origin destination hour alpha)
     = snd (route_graph st now hour alpha)"
  by (simp add: compute_route_def split: prod.splits sum.splits)

lemma fixture_asked:
  "snd (get_routes astar fixture_state ''client'' 1 (Object fixture_query)) = fixture_state_asked"
proof -
  let ?st1 = "fixture_state\<lparr>REQUESTS := [(''client'', [1])]\<rparr>"
  let ?cr = "compute_route astar ?st1 1 [0, 0] [2, 0] 10 (1 / 2)"
  have r: "rate_limit fixture_state ''client'' 1 = (True, ?st1)"
    by (simp add: rate_limit_def fixture_state_eq)
  obtain res st' where c: "?cr = (res, st')" by (cases ?cr)
  with compute_route_state [of astar ?st1 1 "[0, 0]" "[2, 0]" 10 "1 / 2"]
  have st': "st' = fixture_state_asked"
    by (simp add: fixture_route_graph_requests fixture_state_asked_def)
  have "snd (handle_query astar ?st1 1 fixture_query) = st'"
    using c
    by (cases res)
       (simp_all add: handle_query_def fixture_query_def get_or_def hashable_def
         is_route_type_def VALID_ROUTE_TYPES_def valid_coords_def num_of_def coords_tuple_def
         valid_hour_def int_of_def valid_alpha_def preset_alpha_def)
  with r st' show ?thesis by (simp add: get_routes_def)
qed

lemma fixture_asked_eq:
  "fixture_state_asked =
     \<lparr>RISK_CONFIG = initial_RISK_CONFIG, DATASET_TIMESTAMP = 0,
      SEGMENTS_BY_ID = [(''s1'', full_segment ''s1'' [0, 0] [2, 0] 1 0 0)],
      SEGMENT_DISTANCES = [(''s1'', 2)], LAST_CACHE_CLEAR = 0,
      REQUESTS = [(''client'', [1])],
      calculate_risk_cache = [((''s1'', 10), fl (9 / 10))],
      build_graph_cache = [((10, 1 / 2, 0), fixture_graph)]\<rparr>"
  by (simp add: fixture_state_asked_def fixture_state_after_query_def fixture_state_eq)

lemma half_configured_eq:
  "fixture_state_half_configured =
     \<lparr>RISK_CONFIG = [(KStr ''crime_weight'', JFloat (fl (1 / 10))),
        (KStr ''lighting_weight'', JFloat (fl (15 / 100))),
        (KStr ''crowd_weight'', JFloat (fl (15 / 100))),
        (KStr ''nonlinear_exponent'', JFloat (fl (13 / 10)))],
      DATASET_TIMESTAMP = 0,
      SEGMENTS_BY_ID = [(''s1'', full_segment ''s1'' [0, 0] [2, 0] 1 0 0)],
      SEGMENT_DISTANCES = [(''s1'', 2)], LAST_CACHE_CLEAR = 0,
      REQUESTS = [(''client'', [1])],
      calculate_risk_cache = [((''s1'', 10), fl (9 / 10))],
      build_graph_cache = [((10, 1 / 2, 0), fixture_graph)]\<rparr>"
  by (simp add: fixture_state_half_configured_def fixture_asked_eq)

lemma broken_update_applied:
  "py_update initial_RISK_CONFIG broken_update =
     (Some TypeError,
      [(KStr ''crime_weight'', JFloat (fl (1 / 10))),
       (KStr ''lighting_weight'', JFloat (fl (15 / 100))),
       (KStr ''crowd_weight'', JFloat (fl (15 / 100))),
       (KStr ''nonlinear_exponent'', JFloat (fl (13 / 10)))])"
  by (simp add: py_update_def broken_update_def pair_of_def key_of_def initial_RISK_CONFIG_def)

lemma half_configured:
  "config_risk fixture_state_asked (Some broken_update) =
     (Error 400 ''Invalid config payload'', fixture_state_half_configured)"
  using broken_update_applied
  by (simp add: config_risk_def fixture_asked_eq half_configured_eq)

lemma reachable_fixture_state: "reachable fixture_state"
  unfolding fixture_state_def by (rule reachable.start)

lemma reachable_half_configured: "reachable fixture_state_half_configured"
proof -
  have "reachable fixture_state_asked"
    using reachable.query [OF reachable_fixture_state, of astar_path "''client''" 1
        "Object fixture_query"]
    by (simp add: fixture_asked)
  from reachable.config [OF this, of "Some broken_update"] show ?thesis
    by (simp add: half_configured)
qed

lemma half_configured_memo:
  "fst (calculate_risk fixture_state_half_configured ''s1'' 10) = Inr (fl (9 / 10))"
  by (simp add: calculate_risk_def half_configured_eq)

lemma half_configured_score:
  "calculate_risk_wrapped (RISK_CONFIG fixture_state_half_configured)
     (SEGMENTS_BY_ID fixture_state_half_configured) ''s1'' 10 = Inr (fl (4 / 10))"
  using lowered_risk [of "[(''s1'', full_segment ''s1'' [0, 0] [2, 0] 1 0 0)]" "''s1''"]
  by (simp add: half_configured_eq)

lemma cleanly_configured:
  "RISK_CONFIG (snd (config_risk fixture_state_asked (Some lower_crime_weight)))
     = RISK_CONFIG fixture_state_half_configured"
  "calculate_risk_cache (snd (config_risk fixture_state_asked (Some lower_crime_weight))) = []"
  "SEGMENTS_BY_ID (snd (config_risk fixture_state_asked (Some lower_crime_weight)))
     = [(''s1'', full_segment ''s1'' [0, 0] [2, 0] 1 0 0)]"
  by (simp_all add: config_risk_def lower_crime_weight_def py_update_object fixture_asked_eq
      half_configured_eq calculate_risk_cache_clear_def dict_update_def initial_RISK_CONFIG_def)

lemma cleanly_configured_score:
  "fst (calculate_risk (snd (config_risk fixture_state_asked (Some lower_crime_weight)))
     ''s1'' 10) = Inr (fl (4 / 10))"
  using half_configured_score
  by (simp add: calculate_risk_def cleanly_configured half_configured_eq)

lemma build_graph_miss:
  "map_of (build_graph_cache st) (hour, alpha, ts) = None \<Longrightarrow>
   fst (build_graph st hour alpha ts) = fst (build_graph_wrapped st hour alpha ts)"
  by (simp add: build_graph_def split: prod.splits sum.splits)

lemma stale_route_graph:
  "fst (route_graph fixture_state_half_configured 2 10 1) = Inr stale_graph"
proof -
  have a: "auto_clear_cache fixture_state_half_configured 2 = fixture_state_half_configured"
    by (simp add: auto_clear_cache_def GRAPH_CACHE_TTL_def half_configured_eq fsub_def fl_numeral)
  have b: "fst (build_graph_wrapped fixture_state_half_configured 10 1 0) = Inr stale_graph"
    by (simp add: build_graph_wrapped_def half_configured_eq calculate_risk_def lru_hit_def
        dict_get_def eta_of_2 add_edge_def add_node_def stale_graph_def full_segment_sel
        item_def)
  have "DATASET_TIMESTAMP fixture_state_half_configured = 0"
    "map_of (build_graph_cache fixture_state_half_configured) (10, 1, 0) = None"
    by (simp_all add: half_configured_eq)
  with a b show ?thesis
    by (simp add: route_graph_def build_graph_miss)
qed

lemma scores_differ: "fl (9 / 10) \<noteq> fl (4 / 10)"
  by (simp add: fl_values)

text \<open>
  C8, evaluated where the code departs from it. A client asks for a route on the fixture
  at hour 10, which memoises the score 0.9 of segment \<^verbatim>\<open>s1\<close>, and then posts
  \<^verbatim>\<open>[["crime_weight", 0.1], 5]\<close> to \<^verbatim>\<open>/config_risk\<close>. \<^verbatim>\<open>RISK_CONFIG.update\<close> stores the
  crime weight 0.1 and then raises on the element \<^verbatim>\<open>5\<close>; the handler answers with
  status 400 and skips \<^verbatim>\<open>calculate_risk.cache_clear()\<close>. In the state that the service
  is in now, \<^verbatim>\<open>calculate_risk("s1", 10)\<close> returns the memoised 0.9, while the formula gives
  0.4 under the configuration in force, and 0.4 is what \<^verbatim>\<open>calculate_risk\<close> returns when
  the same configuration was set by the body \<^verbatim>\<open>{"crime_weight": 0.1}\<close>: two evaluations
  under the same risk configuration differ. The graph built for the next query with a new
  alpha carries the stale 0.9.
\<close>

theorem failed_update_leaves_stale_score:
  "snd (get_routes astar_path fixture_state ''client'' 1 (Object fixture_query))
     = fixture_state_asked \<and>
   config_risk fixture_state_asked (Some broken_update) =
     (Error 400 ''Invalid config payload'', fixture_state_half_configured) \<and>
   reachable fixture_state_half_configured \<and>
   map_of (RISK_CONFIG fixture_state_half_configured) (KStr ''crime_weight'')
     = Some (JFloat (fl (1 / 10))) \<and>
   fst (calculate_risk fixture_state_half_configured ''s1'' 10) = Inr (fl (9 / 10)) \<and>
   calculate_risk_wrapped (RISK_CONFIG fixture_state_half_configured)
     (SEGMENTS_BY_ID fixture_state_half_configured) ''s1'' 10 = Inr (fl (4 / 10)) \<and>
   RISK_CONFIG (snd (config_risk fixture_state_asked (Some lower_crime_weight)))
     = RISK_CONFIG fixture_state_half_configured \<and>
   fst (calculate_risk (snd (config_risk fixture_state_asked (Some lower_crime_weight)))
     ''s1'' 10) = Inr (fl (4 / 10)) \<and>
   fst (route_graph fixture_state_half_configured 2 10 1) = Inr stale_graph \<and>
   map (\<lambda>e. risk (snd e)) (edges stale_graph) = [fl (9 / 10)] \<and>
   fl (9 / 10) \<noteq> fl (4 / 10)"
proof (intro conjI)
  show "map_of (RISK_CONFIG fixture_state_half_configured) (KStr ''crime_weight'')
     = Some (JFloat (fl (1 / 10)))"
    by (simp add: half_configured_eq)
  show "map (\<lambda>e. risk (snd e)) (edges stale_graph) = [fl (9 / 10)]"
    by (simp add: stale_graph_def edge_for_def)
qed (rule fixture_asked half_configured reachable_half_configured half_configured_memo
      half_configured_score cleanly_configured(1) cleanly_configured_score stale_route_graph
      scores_differ)+

section \<open>The built graph\<close>

lemma build_graph_loop_edges:
  assumes "sound_state st" and "fresh \<longrightarrow> risk_cache_ok st"
    and "build_graph_loop hour alpha items G st = (Inr G', st')"
  shows "\<exists>es. list_all2 (built_edge (RISK_CONFIG st) (SEGMENTS_BY_ID st) (SEGMENT_DISTANCES st)
                  fresh hour alpha) items es \<and>
              edges G' = dict_update (edges G) es"
  using assms
proof (induction items arbitrary: G st)
  case Nil
  then show ?case by simp
next
  case (Cons entry items)
  let ?st1 = "snd (calculate_risk st (fst entry) hour)"
  from Cons.prems(3) obtain a b r d e where
    a: "seg_start (snd entry) = Some a" and b: "seg_end (snd entry) = Some b"
    and r: "fst (calculate_risk st (fst entry) hour) = Inr r"
    and d: "map_of (SEGMENT_DISTANCES st) (fst entry) = Some d"
    and e: "compute_eta d DEFAULT_SPEED_KMPH = Inr e"
    and rest: "build_graph_loop hour alpha items
       (add_edge G a b (edge_for alpha (fst entry) a b r e)) ?st1 = (Inr G', st')"
    by (rule build_graph_loop_step)
  have s1: "sound_state ?st1" using Cons.prems(1) by (rule calculate_risk_sound(1))
  have ok1: "fresh \<longrightarrow> risk_cache_ok ?st1" using Cons.prems(2) calculate_risk_ok by blast
  from Cons.IH [OF s1 ok1 rest] obtain es where
    es: "list_all2 (built_edge (RISK_CONFIG ?st1) (SEGMENTS_BY_ID ?st1) (SEGMENT_DISTANCES ?st1)
            fresh hour alpha) items es"
    and G': "edges G' = dict_update (edges (add_edge G a b (edge_for alpha (fst entry) a b r e))) es"
    by blast
  have fl: "is_float r" using Cons.prems(1) r by (rule calculate_risk_sound(2))
  have w: "fresh \<longrightarrow>
      calculate_risk_wrapped (RISK_CONFIG st) (SEGMENTS_BY_ID st) (fst entry) hour = Inr r"
    using r calculate_risk_memo [of st "fst entry" hour] Cons.prems(2) by auto
  have here: "built_edge (RISK_CONFIG st) (SEGMENTS_BY_ID st) (SEGMENT_DISTANCES st)
      fresh hour alpha entry ((a, b), edge_for alpha (fst entry) a b r e)"
    unfolding built_edge_def using a b d e fl w by blast
  let ?es = "((a, b), edge_for alpha (fst entry) a b r e) # es"
  have "list_all2 (built_edge (RISK_CONFIG st) (SEGMENTS_BY_ID st) (SEGMENT_DISTANCES st)
            fresh hour alpha) (entry # items) ?es"
    using here es by (simp add: calculate_risk_frame)
  moreover have "edges G' = dict_update (edges G) ?es"
    using G' by (simp add: add_edge_def)
  ultimately show ?case by blast
qed

lemma built_edges_keys:
  assumes "list_all2 (built_edge cfg by_id dists fresh hour alpha) items es"
  shows "(u, v) \<in> fst ` set es \<longleftrightarrow>
         (\<exists>entry \<in> set items. seg_start (snd entry) = Some u \<and> seg_end (snd entry) = Some v)"
  using assms
proof (induction rule: list_all2_induct)
  case Nil
  then show ?case by simp
next
  case (Cons entry items e es)
  from Cons(1) obtain a b where "seg_start (snd entry) = Some a" "seg_end (snd entry) = Some b"
    "fst e = (a, b)"
    by (auto simp: built_edge_def)
  with Cons.IH show ?case by auto
qed

lemma built_edges_split:
  assumes "list_all2 P (pre @ x # post) es"
  obtains es1 e es2 where "es = es1 @ e # es2" "P x e" "list_all2 P post es2"
  using assms by (auto simp: list_all2_append1 list_all2_Cons1)

lemma built_graph_edges:
  assumes "sound_state st" and "fresh \<longrightarrow> risk_cache_ok st"
    and "build_graph_wrapped st hour alpha ts = (Inr G, st')"
  obtains es where
    "list_all2 (built_edge (RISK_CONFIG st) (SEGMENTS_BY_ID st) (SEGMENT_DISTANCES st)
       fresh hour alpha) (SEGMENTS_BY_ID st) es"
    "edges G = dict_update [] es"
proof -
  from assms(3) have "build_graph_loop hour alpha (SEGMENTS_BY_ID st) \<lparr>nodes = [], edges = []\<rparr> st
      = (Inr G, st')"
    by (simp add: build_graph_wrapped_def)
  from build_graph_loop_edges [OF assms(1,2) this] that show ?thesis by auto
qed

lemma built_edges_distinct:
  assumes "reachable st" and "build_graph_wrapped st hour alpha ts = (Inr G, st')"
  shows "distinct (map fst (edges G))"
proof -
  have "False \<longrightarrow> risk_cache_ok st" by simp
  from built_graph_edges [OF reachable_sound [OF assms(1)] this assms(2)]
  obtain es where "edges G = dict_update [] es" by blast
  then show ?thesis by (simp add: distinct_dict_update)
qed

lemma twin_state_eq:
  "twin_state =
     \<lparr>RISK_CONFIG = initial_RISK_CONFIG, DATASET_TIMESTAMP = 0,
      SEGMENTS_BY_ID = [(''s1'', full_segment ''s1'' [0, 0] [2, 0] 1 0 0),
                        (''s2'', full_segment ''s2'' [0, 0] [2, 0] 0 1 1),
                        (''s3'', full_segment ''s3'' [2, 0] [155 / 16, 0] 1 0 0)],
      SEGMENT_DISTANCES = [(''s1'', 2), (''s2'', 2), (''s3'', 123 / 16)],
      LAST_CACHE_CLEAR = 0, REQUESTS = [],
      calculate_risk_cache = [], build_graph_cache = []\<rparr>"
  by (simp add: twin_state_def module_import_def twin_file_def load_dataset_def
      validate_dataset_schema_def has_required_keys_def full_segment_sel item_def math_dist_def
      import_state_def float_eval)

lemma eta_of_long: "compute_eta (123 / 16) DEFAULT_SPEED_KMPH = Inr (fl (1537 / 100))"
  by (simp add: compute_eta_def DEFAULT_SPEED_KMPH_def float_eval)

lemma twin_scores:
  "calculate_risk_wrapped initial_RISK_CONFIG (SEGMENTS_BY_ID twin_state) ''s1'' 22
     = Inr (fl (103 / 100))"
  "calculate_risk_wrapped initial_RISK_CONFIG (SEGMENTS_BY_ID twin_state) ''s2'' 22 = Inr 0"
  "calculate_risk_wrapped initial_RISK_CONFIG (SEGMENTS_BY_ID twin_state) ''s3'' 22
     = Inr (fl (103 / 100))"
  by (rule risky_segment_late safe_segment, simp add: twin_state_eq)+

lemma twin_build:
  "fst (build_graph_wrapped twin_state 22 (1 / 2) 0) = Inr twin_graph"
proof -
  let ?r = "fl (103 / 100)"
  have cfg: "RISK_CONFIG twin_state = initial_RISK_CONFIG"
    and cache: "calculate_risk_cache twin_state = []"
    and items: "SEGMENTS_BY_ID twin_state =
       [(''s1'', full_segment ''s1'' [0, 0] [2, 0] 1 0 0),
        (''s2'', full_segment ''s2'' [0, 0] [2, 0] 0 1 1),
        (''s3'', full_segment ''s3'' [2, 0] [155 / 16, 0] 1 0 0)]"
    and dists: "SEGMENT_DISTANCES twin_state = [(''s1'', 2), (''s2'', 2), (''s3'', 123 / 16)]"
    by (simp_all add: twin_state_eq)
  let ?s1 = "twin_state\<lparr>calculate_risk_cache := [((''s1'', 22), ?r)]\<rparr>"
  let ?s2 = "twin_state\<lparr>calculate_risk_cache := [((''s1'', 22), ?r), ((''s2'', 22), 0)]\<rparr>"
  let ?s3 = "twin_state\<lparr>calculate_risk_cache :=
      [((''s1'', 22), ?r), ((''s2'', 22), 0), ((''s3'', 22), ?r)]\<rparr>"
  have c1: "calculate_risk twin_state ''s1'' 22 = (Inr ?r, ?s1)"
    using calculate_risk_miss [of twin_state "''s1''" 22 ?r] twin_scores cfg cache by simp
  have c2: "calculate_risk ?s1 ''s2'' 22 = (Inr 0, ?s2)"
    using calculate_risk_miss [of ?s1 "''s2''" 22 0] twin_scores cfg by simp
  have c3: "calculate_risk ?s2 ''s3'' 22 = (Inr ?r, ?s3)"
    using calculate_risk_miss [of ?s2 "''s3''" 22 ?r] twin_scores cfg by simp
  have "build_graph_wrapped twin_state 22 (1 / 2) 0 = (Inr twin_graph, ?s3)"
    unfolding build_graph_wrapped_def items
    by (simp add: c1 c2 c3 dists dict_get_def eta_of_2 eta_of_long add_edge_def add_node_def
        twin_graph_def full_segment_sel item_def)
  then show ?thesis by simp
qed

lemma twin_edges:
  "edges twin_graph =
     [(([0, 0], [2, 0]), edge_for (1 / 2) ''s2'' [0, 0] [2, 0] 0 4),
      (([2, 0], [155 / 16, 0]),
       edge_for (1 / 2) ''s3'' [2, 0] [155 / 16, 0] (fl (103 / 100)) (fl (1537 / 100)))]"
  by (simp add: twin_graph_def)

lemma late_score_positive: "(0 :: real) \<noteq> fl (103 / 100)"
  by (simp add: fl_values)

text \<open>
  C7, as stated, on three segments of which \<^verbatim>\<open>s1\<close> and \<^verbatim>\<open>s2\<close> both run from \<open>(0, 0)\<close>
  to \<open>(2, 0)\<close>: \<^verbatim>\<open>s1\<close> is in the store and its risk score at hour 22 is 1.03, but the
  built graph has two edges for the three segments, and its one edge from \<open>(0, 0)\<close> to
  \<open>(2, 0)\<close> carries the attributes of \<^verbatim>\<open>s2\<close>, risk 0. \<^verbatim>\<open>nx.DiGraph.add_edge\<close> on an
  existing pair of nodes overwrites its attributes.
\<close>

theorem twin_segments_share_one_edge:
  "map_of (SEGMENTS_BY_ID twin_state) ''s1'' = Some (full_segment ''s1'' [0, 0] [2, 0] 1 0 0) \<and>
   calculate_risk_wrapped (RISK_CONFIG twin_state) (SEGMENTS_BY_ID twin_state) ''s1'' 22
     = Inr (fl (103 / 100)) \<and>
   fst (build_graph_wrapped twin_state 22 (1 / 2) 0) = Inr twin_graph \<and>
   map (\<lambda>e. (fst e, risk (snd e), segment_id (snd e))) (edges twin_graph)
     = [(([0, 0], [2, 0]), 0, ''s2''), (([2, 0], [155 / 16, 0]), fl (103 / 100), ''s3'')] \<and>
   map_option risk (map_of (edges twin_graph) ([0, 0], [2, 0])) = Some 0 \<and>
   (0 :: real) \<noteq> fl (103 / 100)"
proof (intro conjI)
  show "map_of (SEGMENTS_BY_ID twin_state) ''s1'' = Some (full_segment ''s1'' [0, 0] [2, 0] 1 0 0)"
    by (simp add: twin_state_eq)
  show "calculate_risk_wrapped (RISK_CONFIG twin_state) (SEGMENTS_BY_ID twin_state) ''s1'' 22
     = Inr (fl (103 / 100))"
    using twin_scores(1) by (simp add: twin_state_eq)
  show "map (\<lambda>e. (fst e, risk (snd e), segment_id (snd e))) (edges twin_graph)
     = [(([0, 0], [2, 0]), 0, ''s2''), (([2, 0], [155 / 16, 0]), fl (103 / 100), ''s3'')]"
    by (simp add: twin_edges edge_for_def)
  show "map_option risk (map_of (edges twin_graph) ([0, 0], [2, 0])) = Some 0"
    by (simp add: twin_edges edge_for_def)
qed (rule twin_build late_score_positive)+

text \<open>
  C7, amended: when \<^verbatim>\<open>build_graph\<close> builds a graph, the graph has at most one edge per
  ordered pair of coordinates, and an edge from \<open>u\<close> to \<open>v\<close> exactly when some segment
  of the store starts at \<open>u\<close> and ends at \<open>v\<close> (so no reverse edge unless a segment
  runs the other way); every segment of the store has a length and a score. The edge
  between the end points of a segment carries the attributes of the last segment in store
  order with that start and end: \<^verbatim>\<open>eta = round((length / DEFAULT_SPEED_KMPH) * 60, 2)\<close>,
  the risk score of that segment at the hour,
  \<^verbatim>\<open>weight = alpha * eta + (1 - alpha) * risk\<close>, the two end points as geometry and the
  segment's id, all in float arithmetic. This is stated for a state the service can reach
  whose memo table of scores has no stale entry, and the attributes for a blend factor
  in \<open>[0, 1]\<close> and a length and a score of magnitude up to \<open>2\<^sup>5\<^sup>0\<^sup>0\<close>, which keeps
  every operation inside the range of the floats.
\<close>

theorem build_graph_edges:
  assumes "reachable st" and "risk_cache_ok st"
    and "build_graph_wrapped st hour alpha ts = (Inr G, st')"
  shows "distinct (map fst (edges G)) \<and>
         (\<forall>u v. (u, v) \<in> fst ` set (edges G) \<longleftrightarrow>
            (\<exists>entry \<in> set (SEGMENTS_BY_ID st).
               seg_start (snd entry) = Some u \<and> seg_end (snd entry) = Some v)) \<and>
         (\<forall>entry \<in> set (SEGMENTS_BY_ID st). \<exists>r d.
            calculate_risk_wrapped (RISK_CONFIG st) (SEGMENTS_BY_ID st) (fst entry) hour = Inr r \<and>
            map_of (SEGMENT_DISTANCES st) (fst entry) = Some d) \<and>
         (\<forall>pre sid seg post a b r d.
            SEGMENTS_BY_ID st = pre @ (sid, seg) # post \<and>
            seg_start seg = Some a \<and> seg_end seg = Some b \<and>
            (\<forall>p \<in> set post. seg_start (snd p) \<noteq> Some a \<or> seg_end (snd p) \<noteq> Some b) \<and>
            calculate_risk_wrapped (RISK_CONFIG st) (SEGMENTS_BY_ID st) sid hour = Inr r \<and>
            map_of (SEGMENT_DISTANCES st) sid = Some d \<and>
            moderate d \<and> moderate r \<and> 0 \<le> alpha \<and> alpha \<le> 1 \<longrightarrow>
            map_of (SEGMENTS_BY_ID st) sid = Some seg \<and>
            map_of (edges G) (a, b) =
              Some \<lparr>eta = py_round (fmul (fdiv d DEFAULT_SPEED_KMPH) 60) 2, risk = r,
                    weight = fadd (fmul alpha (py_round (fmul (fdiv d DEFAULT_SPEED_KMPH) 60) 2))
                               (fmul (fsub 1 alpha) r),
                    geometry = [a, b], segment_id = sid\<rparr>)"
proof -
  let ?P = "built_edge (RISK_CONFIG st) (SEGMENTS_BY_ID st) (SEGMENT_DISTANCES st) True hour alpha"
  have "True \<longrightarrow> risk_cache_ok st" using assms(2) by simp
  from built_graph_edges [OF reachable_sound [OF assms(1)] this assms(3)]
  obtain es where es: "list_all2 ?P (SEGMENTS_BY_ID st) es" and G: "edges G = dict_update [] es"
    by blast
  have 1: "distinct (map fst (edges G))"
    unfolding G by (rule distinct_dict_update) simp
  have 2: "(u, v) \<in> fst ` set (edges G) \<longleftrightarrow>
      (\<exists>entry \<in> set (SEGMENTS_BY_ID st).
         seg_start (snd entry) = Some u \<and> seg_end (snd entry) = Some v)" for u v
    unfolding G keys_dict_update using built_edges_keys [OF es, of u v] by simp
  have 3: "\<exists>r d. calculate_risk_wrapped (RISK_CONFIG st) (SEGMENTS_BY_ID st) (fst entry) hour = Inr r \<and>
            map_of (SEGMENT_DISTANCES st) (fst entry) = Some d"
    if "entry \<in> set (SEGMENTS_BY_ID st)" for entry
  proof -
    from that obtain i where i: "i < length (SEGMENTS_BY_ID st)" "SEGMENTS_BY_ID st ! i = entry"
      by (auto simp: in_set_conv_nth)
    from list_all2_nthD [OF es i(1)] i(2) have "?P entry (es ! i)" by simp
    then show ?thesis by (cases "es ! i") (auto simp: built_edge_def)
  qed
  have 4: "map_of (SEGMENTS_BY_ID st) sid = Some seg \<and>
        map_of (edges G) (a, b) =
          Some \<lparr>eta = py_round (fmul (fdiv d DEFAULT_SPEED_KMPH) 60) 2, risk = r,
                weight = fadd (fmul alpha (py_round (fmul (fdiv d DEFAULT_SPEED_KMPH) 60) 2))
                           (fmul (fsub 1 alpha) r),
                geometry = [a, b], segment_id = sid\<rparr>"
    if split: "SEGMENTS_BY_ID st = pre @ (sid, seg) # post"
      and a: "seg_start seg = Some a" and b: "seg_end seg = Some b"
      and last: "\<forall>p \<in> set post. seg_start (snd p) \<noteq> Some a \<or> seg_end (snd p) \<noteq> Some b"
      and r: "calculate_risk_wrapped (RISK_CONFIG st) (SEGMENTS_BY_ID st) sid hour = Inr r"
      and d: "map_of (SEGMENT_DISTANCES st) sid = Some d"
    for pre sid seg post a b r d
  proof -
    from es obtain es1 e es2 where parts: "es = es1 @ e # es2"
      and e: "?P (sid, seg) e" and post: "list_all2 ?P post es2"
      unfolding split by (rule built_edges_split)
    from e a b r d obtain t where
      t: "compute_eta d DEFAULT_SPEED_KMPH = Inr t"
      and e_eq: "e = ((a, b), edge_for alpha sid a b r t)"
      by (auto simp: built_edge_def)
    from t have t_eq: "t = py_round (fmul (fdiv d DEFAULT_SPEED_KMPH) 60) 2"
      by (simp add: compute_eta_def split: if_splits)
    from last built_edges_keys [OF post, of a b] have "(a, b) \<notin> fst ` set es2" by auto
    then have "map_of (edges G) (a, b) = Some (edge_for alpha sid a b r t)"
      unfolding G parts e_eq by (rule map_of_dict_update_last)
    with t_eq reachable_segment_lookup [OF assms(1) split] show ?thesis
      by (simp add: edge_for_def)
  qed
  from 1 2 3 4 show ?thesis by blast
qed

theorem build_graph_edges_witness:
  "reachable twin_state \<and> risk_cache_ok twin_state \<and>
   fst (build_graph_wrapped twin_state 22 (1 / 2) 0) = Inr twin_graph \<and>
   SEGMENTS_BY_ID twin_state =
     [(''s1'', full_segment ''s1'' [0, 0] [2, 0] 1 0 0)] @
     (''s2'', full_segment ''s2'' [0, 0] [2, 0] 0 1 1) #
     [(''s3'', full_segment ''s3'' [2, 0] [155 / 16, 0] 1 0 0)] \<and>
   moderate 2 \<and> moderate 0 \<and> moderate (123 / 16) \<and> moderate (fl (103 / 100)) \<and>
   distinct (map fst (edges twin_graph)) \<and>
   fst ` set (edges twin_graph) = {([0, 0], [2, 0]), ([2, 0], [155 / 16, 0])} \<and>
   map_of (edges twin_graph) ([0, 0], [2, 0]) =
     Some \<lparr>eta = py_round (fmul (fdiv 2 DEFAULT_SPEED_KMPH) 60) 2, risk = 0,
           weight = fadd (fmul (1 / 2) (py_round (fmul (fdiv 2 DEFAULT_SPEED_KMPH) 60) 2))
                      (fmul (fsub 1 (1 / 2)) 0),
           geometry = [[0, 0], [2, 0]], segment_id = ''s2''\<rparr> \<and>
   map_of (edges twin_graph) ([2, 0], [155 / 16, 0]) =
     Some \<lparr>eta = py_round (fmul (fdiv (123 / 16) DEFAULT_SPEED_KMPH) 60) 2,
           risk = fl (103 / 100),
           weight = fadd (fmul (1 / 2) (py_round (fmul (fdiv (123 / 16) DEFAULT_SPEED_KMPH) 60) 2))
                      (fmul (fsub 1 (1 / 2)) (fl (103 / 100))),
           geometry = [[2, 0], [155 / 16, 0]], segment_id = ''s3''\<rparr> \<and>
   py_round (fmul (fdiv 2 DEFAULT_SPEED_KMPH) 60) 2 = 4 \<and>
   py_round (fmul (fdiv (123 / 16) DEFAULT_SPEED_KMPH) 60) 2 = fl (1537 / 100)"
proof -
  let ?s1 = "(''s1'', full_segment ''s1'' [0, 0] [2, 0] 1 0 0)"
  let ?s2 = "(''s2'', full_segment ''s2'' [0, 0] [2, 0] 0 1 1)"
  let ?s3 = "(''s3'', full_segment ''s3'' [2, 0] [155 / 16, 0] 1 0 0)"
  have r: "reachable twin_state"
    unfolding twin_state_def by (rule reachable.start)
  have ok: "risk_cache_ok twin_state"
    by (simp add: risk_cache_ok_def twin_state_eq)
  have b: "build_graph_wrapped twin_state 22 (1 / 2) 0
      = (Inr twin_graph, snd (build_graph_wrapped twin_state 22 (1 / 2) 0))"
    using twin_build by (metis prod.collapse)
  have items: "SEGMENTS_BY_ID twin_state = [?s1] @ ?s2 # [?s3]"
    and items': "SEGMENTS_BY_ID twin_state = [?s1, ?s2] @ ?s3 # []"
    and dists: "SEGMENT_DISTANCES twin_state = [(''s1'', 2), (''s2'', 2), (''s3'', 123 / 16)]"
    and cfg: "RISK_CONFIG twin_state = initial_RISK_CONFIG"
    by (simp_all add: twin_state_eq)
  have m: "moderate 2" "moderate 0" "moderate (123 / 16)" "moderate (fl (103 / 100))"
    by (simp_all add: moderate_def fl_values)
  note spec = build_graph_edges [OF r ok b]
  from spec have keys: "\<forall>u v. (u, v) \<in> fst ` set (edges twin_graph) \<longleftrightarrow>
      (\<exists>entry \<in> set (SEGMENTS_BY_ID twin_state).
         seg_start (snd entry) = Some u \<and> seg_end (snd entry) = Some v)"
    by blast
  have k: "fst ` set (edges twin_graph) = {([0, 0], [2, 0]), ([2, 0], [155 / 16, 0])}"
  proof (rule set_eqI)
    fix p :: "point \<times> point"
    obtain u v where p: "p = (u, v)" by (cases p)
    show "p \<in> fst ` set (edges twin_graph) \<longleftrightarrow> p \<in> {([0, 0], [2, 0]), ([2, 0], [155 / 16, 0])}"
      unfolding p using keys [rule_format, of u v]
      by (auto simp: twin_state_eq full_segment_sel)
  qed
  from spec have each: "SEGMENTS_BY_ID twin_state = pre @ (sid, seg) # post \<and>
      seg_start seg = Some a \<and> seg_end seg = Some b \<and>
      (\<forall>p \<in> set post. seg_start (snd p) \<noteq> Some a \<or> seg_end (snd p) \<noteq> Some b) \<and>
      calculate_risk_wrapped (RISK_CONFIG twin_state) (SEGMENTS_BY_ID twin_state) sid 22 = Inr r \<and>
      map_of (SEGMENT_DISTANCES twin_state) sid = Some d \<and>
      moderate d \<and> moderate r \<and> (0 :: real) \<le> 1 / 2 \<and> (1 / 2 :: real) \<le> 1 \<longrightarrow>
      map_of (edges twin_graph) (a, b) =
        Some \<lparr>eta = py_round (fmul (fdiv d DEFAULT_SPEED_KMPH) 60) 2, risk = r,
              weight = fadd (fmul (1 / 2) (py_round (fmul (fdiv d DEFAULT_SPEED_KMPH) 60) 2))
                         (fmul (fsub 1 (1 / 2)) r),
              geometry = [a, b], segment_id = sid\<rparr>" for pre sid seg post a b r d
    by blast
  have e2: "map_of (edges twin_graph) ([0, 0], [2, 0]) =
     Some \<lparr>eta = py_round (fmul (fdiv 2 DEFAULT_SPEED_KMPH) 60) 2, risk = 0,
           weight = fadd (fmul (1 / 2) (py_round (fmul (fdiv 2 DEFAULT_SPEED_KMPH) 60) 2))
                      (fmul (fsub 1 (1 / 2)) 0),
           geometry = [[0, 0], [2, 0]], segment_id = ''s2''\<rparr>"
    using each [of "[?s1]" "''s2''" "snd ?s2" "[?s3]" "[0, 0]" "[2, 0]" 0 2]
      items twin_scores(2) m
    by (simp add: cfg dists full_segment_sel)
  have e3: "map_of (edges twin_graph) ([2, 0], [155 / 16, 0]) =
     Some \<lparr>eta = py_round (fmul (fdiv (123 / 16) DEFAULT_SPEED_KMPH) 60) 2,
           risk = fl (103 / 100),
           weight = fadd (fmul (1 / 2) (py_round (fmul (fdiv (123 / 16) DEFAULT_SPEED_KMPH) 60) 2))
                      (fmul (fsub 1 (1 / 2)) (fl (103 / 100))),
           geometry = [[2, 0], [155 / 16, 0]], segment_id = ''s3''\<rparr>"
    using each [of "[?s1, ?s2]" "''s3''" "snd ?s3" "[]" "[2, 0]" "[155 / 16, 0]"
        "fl (103 / 100)" "123 / 16"]
      items' twin_scores(3) m
    by (simp add: cfg dists full_segment_sel)
  have v: "py_round (fmul (fdiv 2 DEFAULT_SPEED_KMPH) 60) 2 = 4"
    "py_round (fmul (fdiv (123 / 16) DEFAULT_SPEED_KMPH) 60) 2 = fl (1537 / 100)"
    using eta_of_2 eta_of_long by (simp_all add: compute_eta_def split: if_splits)
  from spec have d: "distinct (map fst (edges twin_graph))" by blast
  from r ok twin_build items m d k e2 e3 v show ?thesis by blast
qed

section \<open>The path search\<close>

lemma least_entry_in: "least_entry best es \<in> set (best # es)"
  by (induction es arbitrary: best) (auto split: if_splits)

lemma least_entry_le_best: "est (least_entry best es) \<le> est best"
  by (induction es arbitrary: best) (auto intro: order_trans less_imp_le)

lemma least_entry_le: "e \<in> set (best # es) \<Longrightarrow> est (least_entry best es) \<le> est e"
proof (induction es arbitrary: best)
  case Nil
  then show ?case by simp
next
  case (Cons x es)
  show ?case
  proof (cases "est x < est best")
    case True
    with Cons.prems Cons.IH [of x] least_entry_le_best [of x es] show ?thesis by auto
  next
    case False
    with Cons.prems Cons.IH [of best] least_entry_le_best [of best es] show ?thesis by auto
  qed
qed

lemma is_path_nonempty: "is_path G p \<Longrightarrow> p \<noteq> []"
  by (cases p) auto

lemma is_path_snoc:
  "p \<noteq> [] \<Longrightarrow> is_path G (p @ [v]) \<longleftrightarrow> is_path G p \<and> map_of (edges G) (last p, v) \<noteq> None"
  by (induction G p rule: is_path.induct) auto

lemma total_snoc:
  "p \<noteq> [] \<Longrightarrow> total attr G (p @ [v]) =
     total attr G p + (case map_of (edges G) (last p, v) of None \<Rightarrow> 0 | Some a \<Rightarrow> attr a)"
  by (induction attr G p rule: total.induct) auto

lemma is_path_split:
  "is_path G (q1 @ x # q2) \<Longrightarrow> is_path G (q1 @ [x]) \<and> is_path G (x # q2)"
proof (induction q1)
  case Nil
  then show ?case by simp
next
  case (Cons u q1)
  then show ?case by (cases q1) auto
qed

lemma total_split:
  "total attr G (q1 @ x # q2) = total attr G (q1 @ [x]) + total attr G (x # q2)"
proof (induction q1)
  case Nil
  then show ?case by simp
next
  case (Cons u q1)
  then show ?case by (cases q1) auto
qed

lemma consistent_edge:
  "consistent G h \<Longrightarrow> map_of (edges G) (u, v) = Some a \<Longrightarrow> h u \<le> weight a + h v"
  by (auto simp: consistent_def list_all_iff dest!: map_of_SomeD)

lemma consistent_path:
  "consistent G h \<Longrightarrow> is_path G (x # q) \<Longrightarrow> h x \<le> total weight G (x # q) + h (last (x # q))"
proof (induction q arbitrary: x)
  case Nil
  then show ?case by simp
next
  case (Cons y q)
  from Cons.prems obtain a where a: "map_of (edges G) (x, y) = Some a" and p: "is_path G (y # q)"
    by auto
  from consistent_edge [OF Cons.prems(1) a] Cons.IH [OF Cons.prems(1) p] a
  show ?case by simp
qed

lemma frontier_on_path:
  assumes "astar_inv G h s t explored frontier"
    and "is_path G q" "hd q = s" "last q \<notin> set explored"
  shows "\<exists>e \<in> set frontier. \<exists>q1 q2. q = q1 @ reached e # q2 \<and>
           cost e \<le> total weight G (q1 @ [reached e])"
  using assms(2-4)
proof (induction q rule: rev_induct)
  case Nil
  then show ?case by simp
next
  case (snoc v q')
  show ?case
  proof (cases "q' = []")
    case True
    with snoc.prems have "v = s" "s \<notin> set explored" by auto
    with assms(1) obtain e where "e \<in> set frontier" "reached e = s" "cost e \<le> 0"
      by (auto simp: astar_inv_def)
    with True \<open>v = s\<close> show ?thesis by (intro bexI [of _ e] exI [of _ "[]"]) auto
  next
    case False
    with snoc.prems have p': "is_path G q'" and edge: "map_of (edges G) (last q', v) \<noteq> None"
      and hd': "hd q' = s" and v: "v \<notin> set explored"
      by (auto simp: is_path_snoc)
    show ?thesis
    proof (cases "last q' \<in> set explored")
      case False
      from snoc.IH [OF p' hd' False] obtain e q1 q2 where
        e: "e \<in> set frontier" "q' = q1 @ reached e # q2"
        "cost e \<le> total weight G (q1 @ [reached e])"
        by blast
      then have "q' @ [v] = q1 @ reached e # (q2 @ [v])" by simp
      with e show ?thesis by blast
    next
      case True
      from edge obtain a where a: "map_of (edges G) (last q', v) = Some a" by auto
      from assms(1) True obtain g where
        g: "\<forall>q. is_path G q \<and> hd q = s \<and> last q = last q' \<longrightarrow> g \<le> total weight G q"
        and succ: "\<forall>v a. map_of (edges G) (last q', v) = Some a \<and> v \<notin> set explored \<longrightarrow>
           (\<exists>e \<in> set frontier. reached e = v \<and> cost e \<le> g + weight a)"
        unfolding astar_inv_def by blast
      from succ a v obtain e where e: "e \<in> set frontier" "reached e = v" "cost e \<le> g + weight a"
        by blast
      from g p' hd' have "g \<le> total weight G q'" by blast
      with e a False have "cost e \<le> total weight G (q' @ [reached e])"
        by (simp add: total_snoc)
      with e show ?thesis by (intro bexI [of _ e] exI [of _ q'] exI [of _ "[]"]) auto
    qed
  qed
qed

lemma least_bound:
  assumes inv: "astar_inv G h s t explored (e0 # es)"
    and cons: "consistent G h"
    and q: "is_path G q" "hd q = s" "last q \<notin> set explored"
  shows "est (least_entry e0 es) \<le> total weight G q + h (last q)"
proof -
  from frontier_on_path [OF inv q] obtain e q1 q2 where
    e: "e \<in> set (e0 # es)" and split: "q = q1 @ reached e # q2"
    and c: "cost e \<le> total weight G (q1 @ [reached e])"
    by blast
  from inv e have est: "est e = cost e + h (reached e)" by (auto simp: astar_inv_def)
  from q(1) split have "is_path G (reached e # q2)" using is_path_split by blast
  from consistent_path [OF cons this] split
  have "h (reached e) \<le> total weight G (reached e # q2) + h (last q)" by simp
  moreover have "total weight G q = total weight G (q1 @ [reached e]) + total weight G (reached e # q2)"
    unfolding split by (rule total_split)
  ultimately have "est e \<le> total weight G q + h (last q)" using est c by simp
  with least_entry_le [OF e] show ?thesis by simp
qed

lemma entry_path_expand:
  assumes "e' \<in> set (expand G h explored e)"
  obtains v a where "((reached e, v), a) \<in> set (edges G)" "v \<noteq> reached e" "v \<notin> set explored"
    "reached e' = v" "cost e' = cost e + weight a" "est e' = cost e + weight a + h v"
    "entry_path e' = entry_path e @ [v]"
  using assms by (auto simp: expand_def successors_def entry_path_def)

lemma expand_covers:
  assumes "((reached e, v), a) \<in> set (edges G)" "v \<noteq> reached e" "v \<notin> set explored"
  shows "\<exists>e' \<in> set (expand G h explored e). reached e' = v \<and> cost e' = cost e + weight a"
proof -
  from assms have "(v, weight a) \<in> set (filter (\<lambda>vw. fst vw \<noteq> reached e \<and> fst vw \<notin> set explored)
      (successors G (reached e)))"
    by (force simp: successors_def)
  then show ?thesis unfolding expand_def by force
qed

lemma last_entry_path [simp]: "last (entry_path e) = reached e"
  by (simp add: entry_path_def)

lemma entry_path_nonempty [simp]: "entry_path e \<noteq> []"
  by (simp add: entry_path_def)

lemma inv_skip:
  assumes inv: "astar_inv G h s t explored frontier"
    and e: "reached e \<in> set explored"
  shows "astar_inv G h s t explored (remove1 e frontier)"
proof -
  have keep: "e' \<in> set (remove1 e frontier)"
    if "e' \<in> set frontier" "reached e' \<notin> set explored" for e'
    using that e by (cases "e' = e") (auto simp: in_set_remove1)
  have sub: "set (remove1 e frontier) \<subseteq> set frontier" by (rule set_remove1_subset)
  show ?thesis
    unfolding astar_inv_def
  proof (intro conjI ballI impI)
    fix e' assume "e' \<in> set (remove1 e frontier)"
    with sub have "e' \<in> set frontier" by auto
    with inv show "is_path G (entry_path e')" "hd (entry_path e') = s"
      "cost e' = total weight G (entry_path e')" "est e' = cost e' + h (reached e')"
      by (auto simp: astar_inv_def)
  next
    from inv show "t \<notin> set explored" by (simp add: astar_inv_def)
  next
    assume n: "s \<notin> set explored"
    with inv obtain e' where "e' \<in> set frontier" "reached e' = s" "cost e' \<le> 0"
      by (auto simp: astar_inv_def)
    with keep [of e'] n show "\<exists>e' \<in> set (remove1 e frontier). reached e' = s \<and> cost e' \<le> 0"
      by auto
  next
    fix c assume "c \<in> set explored"
    with inv obtain g where
      g: "\<forall>q. is_path G q \<and> hd q = s \<and> last q = c \<longrightarrow> g \<le> total weight G q"
      and succ: "\<forall>v a. map_of (edges G) (c, v) = Some a \<and> v \<notin> set explored \<longrightarrow>
           (\<exists>e \<in> set frontier. reached e = v \<and> cost e \<le> g + weight a)"
      unfolding astar_inv_def by blast
    have "\<forall>v a. map_of (edges G) (c, v) = Some a \<and> v \<notin> set explored \<longrightarrow>
           (\<exists>e' \<in> set (remove1 e frontier). reached e' = v \<and> cost e' \<le> g + weight a)"
    proof (intro allI impI)
      fix v a assume va: "map_of (edges G) (c, v) = Some a \<and> v \<notin> set explored"
      with succ obtain e' where "e' \<in> set frontier" "reached e' = v" "cost e' \<le> g + weight a"
        by blast
      with keep [of e'] va
      show "\<exists>e' \<in> set (remove1 e frontier). reached e' = v \<and> cost e' \<le> g + weight a"
        by auto
    qed
    with g show "\<exists>g. (\<forall>q. is_path G q \<and> hd q = s \<and> last q = c \<longrightarrow> g \<le> total weight G q) \<and>
        (\<forall>v a. map_of (edges G) (c, v) = Some a \<and> v \<notin> set explored \<longrightarrow>
           (\<exists>e' \<in> set (remove1 e frontier). reached e' = v \<and> cost e' \<le> g + weight a))"
      by blast
  qed
qed

lemma inv_close:
  assumes inv: "astar_inv G h s t explored (e0 # es)"
    and cons: "consistent G h"
    and dist: "distinct (map fst (edges G))"
    and e: "e = least_entry e0 es"
    and x: "reached e \<notin> set explored" "reached e \<noteq> t"
  shows "astar_inv G h s t (reached e # explored)
           (remove1 e (e0 # es) @ expand G h explored e)"
proof -
  let ?F = "e0 # es"
  let ?F' = "remove1 e ?F @ expand G h explored e"
  let ?C' = "reached e # explored"
  have e_in: "e \<in> set ?F" unfolding e by (rule least_entry_in)
  from inv e_in have e_ok: "is_path G (entry_path e)" "hd (entry_path e) = s"
    "cost e = total weight G (entry_path e)" "est e = cost e + h (reached e)"
    by (auto simp: astar_inv_def)
  have keep: "e' \<in> set ?F'" if "e' \<in> set ?F" "reached e' \<noteq> reached e" for e'
    using that by (cases "e' = e") (auto simp: in_set_remove1)
  have sub: "set (remove1 e ?F) \<subseteq> set ?F" by (rule set_remove1_subset)
  have best: "cost e \<le> total weight G q"
    if "is_path G q" "hd q = s" "last q = reached e" for q
  proof -
    from least_bound [OF inv cons that(1,2)] that(3) x(1) e
    have "est e \<le> total weight G q + h (reached e)" by simp
    with e_ok(4) show ?thesis by simp
  qed
  show ?thesis
    unfolding astar_inv_def
  proof (intro conjI ballI impI)
    fix e' assume "e' \<in> set ?F'"
    then consider "e' \<in> set ?F" | "e' \<in> set (expand G h explored e)"
      using sub by auto
    then have "is_path G (entry_path e') \<and> hd (entry_path e') = s \<and>
      cost e' = total weight G (entry_path e') \<and> est e' = cost e' + h (reached e')"
    proof cases
      case 1
      with inv show ?thesis by (auto simp: astar_inv_def)
    next
      case 2
      then obtain v a where va: "((reached e, v), a) \<in> set (edges G)"
        "reached e' = v" "cost e' = cost e + weight a" "est e' = cost e + weight a + h v"
        "entry_path e' = entry_path e @ [v]"
        by (rule entry_path_expand)
      from va(1) dist have m: "map_of (edges G) (reached e, v) = Some a" by simp
      from m e_ok va show ?thesis
        by (simp add: is_path_snoc total_snoc hd_append)
    qed
    then show "is_path G (entry_path e')" "hd (entry_path e') = s"
      "cost e' = total weight G (entry_path e')" "est e' = cost e' + h (reached e')"
      by simp_all
  next
    from inv x show "t \<notin> set ?C'" by (auto simp: astar_inv_def)
  next
    assume n: "s \<notin> set ?C'"
    with inv obtain e' where "e' \<in> set ?F" "reached e' = s" "cost e' \<le> 0"
      by (auto simp: astar_inv_def)
    with keep [of e'] n show "\<exists>e' \<in> set ?F'. reached e' = s \<and> cost e' \<le> 0"
      by auto
  next
    fix c assume c: "c \<in> set ?C'"
    show "\<exists>g. (\<forall>q. is_path G q \<and> hd q = s \<and> last q = c \<longrightarrow> g \<le> total weight G q) \<and>
        (\<forall>v a. map_of (edges G) (c, v) = Some a \<and> v \<notin> set ?C' \<longrightarrow>
           (\<exists>e' \<in> set ?F'. reached e' = v \<and> cost e' \<le> g + weight a))"
    proof (cases "c = reached e")
      case True
      have "\<exists>e' \<in> set ?F'. reached e' = v \<and> cost e' \<le> cost e + weight a"
        if "map_of (edges G) (c, v) = Some a \<and> v \<notin> set ?C'" for v a
      proof -
        from that True have "((reached e, v), a) \<in> set (edges G)" "v \<noteq> reached e"
          "v \<notin> set explored"
          by (auto dest: map_of_SomeD)
        from expand_covers [OF this, of h] show ?thesis by auto
      qed
      with best True show ?thesis by (intro exI [of _ "cost e"]) blast
    next
      case False
      with c have "c \<in> set explored" by simp
      with inv obtain g where
        g: "\<forall>q. is_path G q \<and> hd q = s \<and> last q = c \<longrightarrow> g \<le> total weight G q"
        and succ: "\<forall>v a. map_of (edges G) (c, v) = Some a \<and> v \<notin> set explored \<longrightarrow>
           (\<exists>e \<in> set ?F. reached e = v \<and> cost e \<le> g + weight a)"
        unfolding astar_inv_def by blast
      have "\<exists>e' \<in> set ?F'. reached e' = v \<and> cost e' \<le> g + weight a"
        if va: "map_of (edges G) (c, v) = Some a \<and> v \<notin> set ?C'" for v a
      proof -
        from succ va obtain e' where "e' \<in> set ?F" "reached e' = v" "cost e' \<le> g + weight a"
          by auto
        with keep [of e'] va show ?thesis by auto
      qed
      with g show ?thesis by blast
    qed
  qed
qed

lemma astar_loop_correct:
  assumes "consistent G h" "distinct (map fst (edges G))"
    and "astar_inv G h s t explored frontier"
  shows "(\<forall>p. astar_loop G h t explored frontier = Path p \<longrightarrow>
            is_path G p \<and> hd p = s \<and> last p = t \<and>
            (\<forall>q. is_path G q \<and> hd q = s \<and> last q = t \<longrightarrow> total weight G p \<le> total weight G q)) \<and>
         astar_loop G h t explored frontier \<noteq> OtherException \<and>
         ((\<exists>q. is_path G q \<and> hd q = s \<and> last q = t) \<longrightarrow>
            astar_loop G h t explored frontier \<noteq> NetworkXNoPath)"
  using assms
proof (induction G h t explored frontier rule: astar_loop.induct)
  case (1 G h t explored)
  have "\<not> (\<exists>q. is_path G q \<and> hd q = s \<and> last q = t)"
  proof
    assume "\<exists>q. is_path G q \<and> hd q = s \<and> last q = t"
    then obtain q where "is_path G q" "hd q = s" "last q = t" by blast
    moreover from 1 have "t \<notin> set explored" by (simp add: astar_inv_def)
    ultimately show False using frontier_on_path [OF 1(3), of q] by simp
  qed
  then show ?case by simp
next
  case (2 G h t explored e0 es)
  note cons = 2(3) and dist = 2(4) and inv = 2(5)
  let ?e = "least_entry e0 es"
  let ?rest = "remove1 ?e (e0 # es)"
  have e_in: "?e \<in> set (e0 # es)" by (rule least_entry_in)
  show ?case
  proof (cases "reached ?e = t")
    case True
    from inv e_in have ok: "is_path G (entry_path ?e)" "hd (entry_path ?e) = s"
      "cost ?e = total weight G (entry_path ?e)" "est ?e = cost ?e + h (reached ?e)"
      by (auto simp: astar_inv_def)
    from inv have t: "t \<notin> set explored" by (simp add: astar_inv_def)
    have opt: "total weight G (entry_path ?e) \<le> total weight G q"
      if q: "is_path G q \<and> hd q = s \<and> last q = t" for q
    proof -
      from q t have "is_path G q" "hd q = s" "last q \<notin> set explored" by simp_all
      from least_bound [OF inv cons this] q have "est ?e \<le> total weight G q + h t" by simp
      with ok True show ?thesis by simp
    qed
    have res: "astar_loop G h t explored (e0 # es) = Path (entry_path ?e)"
      using True by (simp add: Let_def entry_path_def)
    from ok True opt show ?thesis unfolding res by auto
  next
    case nt: False
    show ?thesis
    proof (cases "reached ?e \<in> set explored")
      case True
      have res: "astar_loop G h t explored (e0 # es) = astar_loop G h t explored ?rest"
        using nt True by (simp add: Let_def)
      from inv_skip [OF inv True] have "astar_inv G h s t explored ?rest" .
      from 2(1) [OF refl refl nt True cons dist this] show ?thesis unfolding res .
    next
      case False
      have res: "astar_loop G h t explored (e0 # es) =
          astar_loop G h t (reached ?e # explored) (?rest @ expand G h explored ?e)"
        using nt False by (simp add: Let_def)
      have "astar_inv G h s t (reached ?e # explored) (?rest @ expand G h explored ?e)"
        by (rule inv_close [OF inv cons dist refl False nt])
      from 2(2) [OF refl refl nt False cons dist this] show ?thesis unfolding res .
    qed
  qed
qed

lemma initial_inv:
  "astar_inv G h s t [] [\<lparr>est = h s, cost = 0, reached = s, trail = []\<rparr>]"
  by (simp add: astar_inv_def entry_path_def)

lemma astar_path_correct:
  assumes "consistent G (\<lambda>v. planar_distance v t)" "distinct (map fst (edges G))"
  shows "(\<forall>p. astar_path G s t = Path p \<longrightarrow>
            is_path G p \<and> hd p = s \<and> last p = t \<and>
            (\<forall>q. is_path G q \<and> hd q = s \<and> last q = t \<longrightarrow> total weight G p \<le> total weight G q)) \<and>
         (s \<in> set (nodes G) \<and> t \<in> set (nodes G) \<and> same_dimension G t \<and>
          (\<exists>q. is_path G q \<and> hd q = s \<and> last q = t) \<longrightarrow> (\<exists>p. astar_path G s t = Path p))"
proof (cases "s \<notin> set (nodes G) \<or> t \<notin> set (nodes G) \<or> \<not> same_dimension G t")
  case True
  then show ?thesis by (auto simp: astar_path_def)
next
  case False
  let ?h = "\<lambda>v. planar_distance v t"
  let ?r = "astar_loop G ?h t [] [\<lparr>est = ?h s, cost = 0, reached = s, trail = []\<rparr>]"
  from False have r: "astar_path G s t = ?r" by (simp add: astar_path_def)
  note c = astar_loop_correct [OF assms initial_inv [of G ?h s t]]
  from c have "(\<exists>q. is_path G q \<and> hd q = s \<and> last q = t) \<longrightarrow> (\<exists>p. ?r = Path p)"
    by (cases ?r) auto
  with c show ?thesis unfolding r by blast
qed

lemma set_dict_update: "set (dict_update d kvs) \<subseteq> set d \<union> set kvs"
proof (induction kvs arbitrary: d)
  case Nil
  then show ?case by simp
next
  case (Cons kv kvs)
  have "set (AList.update (fst kv) (snd kv) d) \<subseteq> insert kv (set d)"
    using set_update_subset [of "fst kv" "snd kv" d] by simp
  with Cons [of "AList.update (fst kv) (snd kv) d"] show ?case by auto
qed

text \<open>With \<open>alpha = 1\<close> the weight of a built edge is its ETA, with \<open>alpha = 0\<close> its risk:
  both are floats, which the products with 1 and the sums with 0 leave as they are.\<close>

lemma edge_for_fastest: "is_float e \<Longrightarrow> weight (edge_for 1 sid a b r e) = e"
  by (simp add: edge_for_def fmul_one_left fadd_zero_right)

lemma edge_for_safest: "is_float r \<Longrightarrow> weight (edge_for 0 sid a b r e) = r"
  by (simp add: edge_for_def fmul_one_left fadd_zero_left)

lemma built_weights:
  assumes "reachable st" and "build_graph_wrapped st hour alpha ts = (Inr G, st')"
  shows "\<forall>e \<in> set (edges G).
           (alpha = 1 \<longrightarrow> weight (snd e) = eta (snd e)) \<and>
           (alpha = 0 \<longrightarrow> weight (snd e) = risk (snd e))"
proof -
  let ?P = "built_edge (RISK_CONFIG st) (SEGMENTS_BY_ID st) (SEGMENT_DISTANCES st) False hour alpha"
  have "False \<longrightarrow> risk_cache_ok st" by simp
  from built_graph_edges [OF reachable_sound [OF assms(1)] this assms(2)]
  obtain es where es: "list_all2 ?P (SEGMENTS_BY_ID st) es" and G: "edges G = dict_update [] es"
    by blast
  have "(alpha = 1 \<longrightarrow> weight (snd e) = eta (snd e)) \<and>
        (alpha = 0 \<longrightarrow> weight (snd e) = risk (snd e))" if "e \<in> set es" for e
  proof -
    from that obtain i where i: "i < length es" "es ! i = e"
      by (auto simp: in_set_conv_nth)
    from es i(1) have "?P (SEGMENTS_BY_ID st ! i) (es ! i)"
      by (simp add: list_all2_conv_all_nth)
    then obtain a b r d t where t: "compute_eta d DEFAULT_SPEED_KMPH = Inr t"
      and r: "is_float r" and e: "e = ((a, b), edge_for alpha (fst (SEGMENTS_BY_ID st ! i)) a b r t)"
      unfolding i(2) built_edge_def by blast
    from t have "is_float t"
      by (auto simp: compute_eta_def is_float_py_round split: if_splits)
    with r show ?thesis
      unfolding e by (auto simp: edge_for_fastest edge_for_safest) (simp_all add: edge_for_def)
  qed
  with set_dict_update [of "[]" es] show ?thesis unfolding G by auto
qed

lemma total_cong:
  "\<forall>e \<in> set (edges G). f (snd e) = g (snd e) \<Longrightarrow> total f G p = total g G p"
proof (induction f G p rule: total.induct)
  case (1 attr G u v rest)
  then show ?case
    by (auto split: option.splits dest!: map_of_SomeD)
qed simp_all

subsection \<open>The detour fixture\<close>

lemma detour_state_eq:
  "detour_state =
     \<lparr>RISK_CONFIG = initial_RISK_CONFIG, DATASET_TIMESTAMP = 0,
      SEGMENTS_BY_ID =
        [(''a1'', full_segment ''a1'' [0, 0] [3, 0] 1 0 0),
         (''a2'', full_segment ''a2'' [3, 0] [6, 0] 1 0 0),
         (''b1'', full_segment ''b1'' [0, 0] [3, 4] 0 1 1),
         (''b2'', full_segment ''b2'' [3, 4] [6, 0] 0 1 1)],
      SEGMENT_DISTANCES = [(''a1'', 3), (''a2'', 3), (''b1'', 5), (''b2'', 5)],
      LAST_CACHE_CLEAR = 0, REQUESTS = [],
      calculate_risk_cache = [], build_graph_cache = []\<rparr>"
  by (simp add: detour_state_def module_import_def detour_file_def load_dataset_def
      validate_dataset_schema_def has_required_keys_def full_segment_sel item_def math_dist_def
      import_state_def float_eval)

lemma eta_of_3: "compute_eta 3 DEFAULT_SPEED_KMPH = Inr 6"
  by (simp add: compute_eta_def DEFAULT_SPEED_KMPH_def float_eval)

lemma eta_of_5: "compute_eta 5 DEFAULT_SPEED_KMPH = Inr 10"
  by (simp add: compute_eta_def DEFAULT_SPEED_KMPH_def float_eval)

lemma detour_build:
  "fst (build_graph_wrapped detour_state 10 alpha 0) = Inr (detour_graph alpha)"
proof -
  let ?items = "SEGMENTS_BY_ID detour_state"
  let ?r = "fl (9 / 10)"
  have items: "?items =
        [(''a1'', full_segment ''a1'' [0, 0] [3, 0] 1 0 0),
         (''a2'', full_segment ''a2'' [3, 0] [6, 0] 1 0 0),
         (''b1'', full_segment ''b1'' [0, 0] [3, 4] 0 1 1),
         (''b2'', full_segment ''b2'' [3, 4] [6, 0] 0 1 1)]"
    and cfg: "RISK_CONFIG detour_state = initial_RISK_CONFIG"
    and dists: "SEGMENT_DISTANCES detour_state = [(''a1'', 3), (''a2'', 3), (''b1'', 5), (''b2'', 5)]"
    and cache: "calculate_risk_cache detour_state = []"
    by (simp_all add: detour_state_eq)
  have r: "calculate_risk_wrapped initial_RISK_CONFIG ?items ''a1'' 10 = Inr ?r"
    "calculate_risk_wrapped initial_RISK_CONFIG ?items ''a2'' 10 = Inr ?r"
    "calculate_risk_wrapped initial_RISK_CONFIG ?items ''b1'' 10 = Inr 0"
    "calculate_risk_wrapped initial_RISK_CONFIG ?items ''b2'' 10 = Inr 0"
    by (rule risky_segment safe_segment, simp add: items)+
  let ?s1 = "detour_state\<lparr>calculate_risk_cache := [((''a1'', 10), ?r)]\<rparr>"
  let ?s2 = "detour_state\<lparr>calculate_risk_cache := [((''a1'', 10), ?r), ((''a2'', 10), ?r)]\<rparr>"
  let ?s3 = "detour_state\<lparr>calculate_risk_cache := [((''a1'', 10), ?r), ((''a2'', 10), ?r),
      ((''b1'', 10), 0)]\<rparr>"
  let ?s4 = "detour_state\<lparr>calculate_risk_cache := [((''a1'', 10), ?r), ((''a2'', 10), ?r),
      ((''b1'', 10), 0), ((''b2'', 10), 0)]\<rparr>"
  have c1: "calculate_risk detour_state ''a1'' 10 = (Inr ?r, ?s1)"
    using calculate_risk_miss [of detour_state "''a1''" 10 ?r] r cfg cache by simp
  have c2: "calculate_risk ?s1 ''a2'' 10 = (Inr ?r, ?s2)"
    using calculate_risk_miss [of ?s1 "''a2''" 10 ?r] r cfg by simp
  have c3: "calculate_risk ?s2 ''b1'' 10 = (Inr 0, ?s3)"
    using calculate_risk_miss [of ?s2 "''b1''" 10 0] r cfg by simp
  have c4: "calculate_risk ?s3 ''b2'' 10 = (Inr 0, ?s4)"
    using calculate_risk_miss [of ?s3 "''b2''" 10 0] r cfg by simp
  have "build_graph_wrapped detour_state 10 alpha 0 = (Inr (detour_graph alpha), ?s4)"
    unfolding build_graph_wrapped_def items
    by (simp add: c1 c2 c3 c4 dists dict_get_def eta_of_3 eta_of_5
      add_edge_def add_node_def detour_graph_def detour_edge_def
      full_segment_sel item_def)
  then show ?thesis by simp
qed

lemma detour_heuristic:
  "planar_distance [0, 0] [6, 0] = 6" "planar_distance [3, 0] [6, 0] = 3"
  "planar_distance [3, 4] [6, 0] = 5" "planar_distance [6, 0] [6, 0] = 0"
  by (simp_all add: planar_distance_def math_dist_def float_eval)

lemma detour_edges:
  "edges (detour_graph alpha) =
     [(([0, 0], [3, 0]), edge_for alpha ''a1'' [0, 0] [3, 0] (fl (9 / 10)) 6),
      (([3, 0], [6, 0]), edge_for alpha ''a2'' [3, 0] [6, 0] (fl (9 / 10)) 6),
      (([0, 0], [3, 4]), edge_for alpha ''b1'' [0, 0] [3, 4] 0 10),
      (([3, 4], [6, 0]), edge_for alpha ''b2'' [3, 4] [6, 0] 0 10)]"
  by (simp add: detour_graph_def detour_edge_def)

lemma detour_weights:
  "weight (edge_for 0 sid a b (fl (9 / 10)) 6) = fl (9 / 10)"
  "weight (edge_for 0 sid a b 0 10) = 0"
  "weight (edge_for 1 sid a b (fl (9 / 10)) 6) = 6"
  "weight (edge_for 1 sid a b 0 10) = 10"
  by (simp_all add: edge_for_def float_eval)

lemma detour_successors:
  "successors (detour_graph 0) [0, 0] = [([3, 0], fl (9 / 10)), ([3, 4], 0)]"
  "successors (detour_graph 0) [3, 0] = [([6, 0], fl (9 / 10))]"
  "successors (detour_graph 0) [3, 4] = [([6, 0], 0)]"
  "successors (detour_graph 1) [0, 0] = [([3, 0], 6), ([3, 4], 10)]"
  "successors (detour_graph 1) [3, 0] = [([6, 0], 6)]"
  "successors (detour_graph 1) [3, 4] = [([6, 0], 10)]"
  by (simp_all add: successors_def detour_edges detour_weights)

lemma detour_dimension: "same_dimension (detour_graph alpha) [6, 0]"
  by (simp add: same_dimension_def detour_edges) (simp add: detour_graph_def)

lemma detour_nodes: "nodes (detour_graph alpha) = [[0, 0], [3, 0], [6, 0], [3, 4]]"
  by (simp add: detour_graph_def)

lemma detour_safest_search:
  "astar_path (detour_graph 0) [0, 0] [6, 0] = Path [[0, 0], [3, 0], [6, 0]]"
  by (simp add: astar_path_def detour_dimension detour_nodes detour_heuristic expand_def
      detour_successors Let_def fl_values)

lemma detour_fastest_search:
  "astar_path (detour_graph 1) [0, 0] [6, 0] = Path [[0, 0], [3, 0], [6, 0]]"
  by (simp add: astar_path_def detour_dimension detour_nodes detour_heuristic expand_def
      detour_successors Let_def)

lemma detour_totals:
  "total risk (detour_graph alpha) [[0, 0], [3, 0], [6, 0]] = 2 * fl (9 / 10)"
  "total risk (detour_graph alpha) [[0, 0], [3, 4], [6, 0]] = 0"
  "total eta (detour_graph alpha) [[0, 0], [3, 0], [6, 0]] = 12"
  "total eta (detour_graph alpha) [[0, 0], [3, 4], [6, 0]] = 20"
  by (simp_all add: detour_edges edge_for_def)

lemma detour_paths:
  "is_path (detour_graph alpha) [[0, 0], [3, 0], [6, 0]]"
  "is_path (detour_graph alpha) [[0, 0], [3, 4], [6, 0]]"
  by (simp_all add: detour_edges)

lemma detour_consistent: "consistent (detour_graph 1) (\<lambda>v. planar_distance v [6, 0])"
  by (simp add: consistent_def detour_edges detour_heuristic detour_weights)

lemma detour_not_consistent: "\<not> consistent (detour_graph 0) (\<lambda>v. planar_distance v [6, 0])"
  by (simp add: consistent_def detour_edges detour_heuristic detour_weights fl_values)

lemma compute_route_fst:
  "fst (compute_route astar st now origin destination hour alpha) =
     bind_exn (fst (route_graph st now hour alpha)) (\<lambda>G. route_on astar G origin destination)"
  by (simp add: compute_route_def split: prod.splits sum.splits)

lemma reachable_detour_state: "reachable detour_state"
  unfolding detour_state_def by (rule reachable.start)

lemma reachable_cautious_state: "reachable cautious_state"
  unfolding cautious_state_def by (rule reachable.config [OF reachable_fixture_state])

lemma cautious_state_eq:
  "cautious_state =
     \<lparr>RISK_CONFIG = [(KStr ''crime_weight'', JInt 3),
        (KStr ''lighting_weight'', JFloat (fl (15 / 100))),
        (KStr ''crowd_weight'', JFloat (fl (15 / 100))),
        (KStr ''nonlinear_exponent'', JFloat (fl (13 / 10)))],
      DATASET_TIMESTAMP = 0,
      SEGMENTS_BY_ID = [(''s1'', full_segment ''s1'' [0, 0] [2, 0] 1 0 0)],
      SEGMENT_DISTANCES = [(''s1'', 2)], LAST_CACHE_CLEAR = 0, REQUESTS = [],
      calculate_risk_cache = [], build_graph_cache = []\<rparr>"
  by (simp add: cautious_state_def config_risk_def py_update_object fixture_state_eq
      calculate_risk_cache_clear_def dict_update_def initial_RISK_CONFIG_def)

lemma cautious_risk:
  "calculate_risk_wrapped (RISK_CONFIG cautious_state) (SEGMENTS_BY_ID cautious_state) ''s1'' 10
     = Inr (fl (33 / 10))"
  using exponent_13_10
  by (simp add: cautious_state_eq calculate_risk_wrapped_def dict_get_def full_segment_sel
      item_def nonlinear_def as_float_def py_pow_one py_mul_def py_add_def round_base_def
      time_multiplier_def float_eval)

lemma cautious_build: "fst (build_graph_wrapped cautious_state 10 0 0) = Inr cautious_graph"
proof -
  have c: "calculate_risk cautious_state ''s1'' 10 =
      (Inr (fl (33 / 10)), cautious_state\<lparr>calculate_risk_cache :=
         calculate_risk_cache cautious_state @ [((''s1'', 10), fl (33 / 10))]\<rparr>)"
    by (rule calculate_risk_miss [OF _ cautious_risk]) (simp_all add: cautious_state_eq)
  have "SEGMENTS_BY_ID cautious_state = [(''s1'', full_segment ''s1'' [0, 0] [2, 0] 1 0 0)]"
    "SEGMENT_DISTANCES cautious_state = [(''s1'', 2)]"
    by (simp_all add: cautious_state_eq)
  then show ?thesis
    by (simp add: build_graph_wrapped_def c dict_get_def eta_of_2
      add_edge_def add_node_def cautious_graph_def full_segment_sel item_def)
qed

lemma cautious_search:
  "consistent cautious_graph (\<lambda>v. planar_distance v [2, 0])"
  "astar_path cautious_graph [0, 0] [2, 0] = Path [[0, 0], [2, 0]]"
  "is_path cautious_graph [[0, 0], [2, 0]]"
  by (simp_all add: consistent_def cautious_graph_def edge_for_def planar_distance_def
      math_dist_def astar_path_def same_dimension_def expand_def successors_def Let_def
      float_eval)

lemma detour_route_graph: "fst (route_graph detour_state 1 10 0) = Inr (detour_graph 0)"
proof -
  have "auto_clear_cache detour_state 1 = detour_state"
    by (simp add: auto_clear_cache_def GRAPH_CACHE_TTL_def detour_state_eq fsub_def)
  moreover have "DATASET_TIMESTAMP detour_state = 0" "build_graph_cache detour_state = []"
    by (simp_all add: detour_state_eq)
  ultimately show ?thesis
    by (simp add: route_graph_def build_graph_miss detour_build)
qed

lemma detour_nearest:
  "nearest_node (detour_graph 0) [0, 0] = Inr ([0, 0], False)"
  "nearest_node (detour_graph 0) [6, 0] = Inr ([6, 0], False)"
  by (simp_all add: nearest_node_def detour_nodes math_dist_def MAX_SNAP_DISTANCE_def float_eval)

lemma detour_assemble:
  "assemble_route (detour_graph 0) [[0, 0], [3, 0], [6, 0]] =
     Inr \<lparr>route_path = [[0, 0], [3, 0], [6, 0]], route_eta = 12, route_risk = fl (9 / 10),
          route_confidence = fl (53 / 100),
          route_geometry = Some [[[0, 0], [3, 0]], [[3, 0], [6, 0]]], route_warning = None\<rparr>"
proof -
  have s: "sum_path (detour_graph 0) [[0, 0], [3, 0], [6, 0]] (0, 0, []) =
      Inr (12, fadd (fl (9 / 10)) (fl (9 / 10)), [[[0, 0], [3, 0]], [[3, 0], [6, 0]]])"
    by (simp add: detour_edges edge_for_def float_eval)
  show ?thesis
    by (simp add: assemble_route_def s float_eval del: sum_path.simps)
qed

text \<open>
  C3, as stated, on the detour fixture. The graph holds the direct route with total ETA 12
  and total risk 1.8 (twice the float 0.9) and the detour with total ETA 20 and total
  risk 0. With \<open>alpha = 0\<close> every edge weight is the risk of the edge, and the search
  returns the direct route: the distance heuristic rates the first vertex of the detour
  at 5 and the first vertex of the direct route at 3.9, and the target is reached before
  the detour is looked at. \<^verbatim>\<open>compute_route\<close> reports the direct route; the path of
  least total risk is the detour.
\<close>

theorem safest_search_takes_risky_route:
  "reachable detour_state \<and>
   fst (build_graph_wrapped detour_state 10 0 0) = Inr (detour_graph 0) \<and>
   is_path (detour_graph 0) direct_route \<and> is_path (detour_graph 0) safe_detour \<and>
   total eta (detour_graph 0) direct_route = 12 \<and> total eta (detour_graph 0) safe_detour = 20 \<and>
   total risk (detour_graph 0) direct_route = 2 * fl (9 / 10) \<and> 0 < fl (9 / 10) \<and>
   total risk (detour_graph 0) safe_detour = 0 \<and>
   astar_path (detour_graph 0) [0, 0] [6, 0] = Path direct_route \<and>
   fst (compute_route astar_path detour_state 1 [0, 0] [6, 0] 10 0) =
     Inr (Some \<lparr>route_path = direct_route, route_eta = 12, route_risk = fl (9 / 10),
                route_confidence = fl (53 / 100),
                route_geometry = Some [[[0, 0], [3, 0]], [[3, 0], [6, 0]]],
                route_warning = None\<rparr>, None)"
proof (intro conjI)
  show "fst (compute_route astar_path detour_state 1 [0, 0] [6, 0] 10 0) =
     Inr (Some \<lparr>route_path = direct_route, route_eta = 12, route_risk = fl (9 / 10),
                route_confidence = fl (53 / 100),
                route_geometry = Some [[[0, 0], [3, 0]], [[3, 0], [6, 0]]],
                route_warning = None\<rparr>, None)"
    by (simp add: compute_route_fst detour_route_graph route_on_def before_search_def
        after_search_def detour_nearest detour_safest_search detour_assemble direct_route_def)
  show "0 < fl (9 / 10)"
    by (simp add: fl_values)
qed (simp_all add: reachable_detour_state detour_build detour_paths detour_totals
      detour_safest_search direct_route_def safe_detour_def del: is_path.simps total.simps)

text \<open>
  C3, amended: for every graph that \<^verbatim>\<open>build_graph\<close> builds in a reachable state and on
  which the distance heuristic is consistent with the edge weights (for every edge from
  \<open>u\<close> to \<open>v\<close>, the distance from \<open>u\<close> to the target is at most the weight of the edge
  plus the distance from \<open>v\<close> to the target), a path that the search returns runs from
  the origin vertex to the destination vertex; with \<open>alpha = 1\<close> it has the least total
  ETA of all such paths, whatever the risks are, and with \<open>alpha = 0\<close> the least total
  risk, whatever the ETAs are. If origin and destination are vertices of the graph, all
  of one dimension, and some path joins them, the search returns a path.
\<close>

theorem search_minimises_when_consistent:
  assumes "reachable st"
    and "fst (build_graph_wrapped st hour alpha ts) = Inr G"
    and "consistent G (\<lambda>v. planar_distance v t)"
  shows "(\<forall>p. astar_path G s t = Path p \<longrightarrow>
            is_path G p \<and> hd p = s \<and> last p = t \<and>
            (alpha = 1 \<longrightarrow>
               (\<forall>q. is_path G q \<and> hd q = s \<and> last q = t \<longrightarrow> total eta G p \<le> total eta G q)) \<and>
            (alpha = 0 \<longrightarrow>
               (\<forall>q. is_path G q \<and> hd q = s \<and> last q = t \<longrightarrow> total risk G p \<le> total risk G q))) \<and>
         (s \<in> set (nodes G) \<and> t \<in> set (nodes G) \<and> same_dimension G t \<and>
          (\<exists>q. is_path G q \<and> hd q = s \<and> last q = t) \<longrightarrow> (\<exists>p. astar_path G s t = Path p))"
proof -
  obtain st' where b: "build_graph_wrapped st hour alpha ts = (Inr G, st')"
    using assms(2) by (cases "build_graph_wrapped st hour alpha ts") simp
  note d = built_edges_distinct [OF assms(1) b]
  note w = built_weights [OF assms(1) b]
  note c = astar_path_correct [OF assms(3) d, of s]
  have fast: "total weight G p = total eta G p" if "alpha = 1" for p
    using w that by (intro total_cong) simp
  have safe: "total weight G p = total risk G p" if "alpha = 0" for p
    using w that by (intro total_cong) simp
  from c fast safe show ?thesis by (auto simp del: is_path.simps total.simps)
qed

theorem search_minimises_when_consistent_witness:
  "reachable detour_state \<and>
   fst (build_graph_wrapped detour_state 10 1 0) = Inr (detour_graph 1) \<and>
   consistent (detour_graph 1) (\<lambda>v. planar_distance v [6, 0]) \<and>
   astar_path (detour_graph 1) [0, 0] [6, 0] = Path direct_route \<and>
   is_path (detour_graph 1) safe_detour \<and> hd safe_detour = [0, 0] \<and> last safe_detour = [6, 0] \<and>
   total eta (detour_graph 1) direct_route \<le> total eta (detour_graph 1) safe_detour \<and>
   reachable cautious_state \<and>
   fst (build_graph_wrapped cautious_state 10 0 0) = Inr cautious_graph \<and>
   consistent cautious_graph (\<lambda>v. planar_distance v [2, 0]) \<and>
   astar_path cautious_graph [0, 0] [2, 0] = Path [[0, 0], [2, 0]] \<and>
   is_path cautious_graph [[0, 0], [2, 0]] \<and>
   total risk cautious_graph [[0, 0], [2, 0]] \<le> total risk cautious_graph [[0, 0], [2, 0]]"
proof -
  have one: "(1 :: real) = 1" and zero: "(0 :: real) = 0" by simp_all
  have a: "astar_path (detour_graph 1) [0, 0] [6, 0] = Path direct_route"
    by (simp add: detour_fastest_search direct_route_def)
  have q: "is_path (detour_graph 1) safe_detour \<and> hd safe_detour = [0, 0] \<and>
      last safe_detour = [6, 0]"
    using detour_paths(2) [of 1] by (simp add: safe_detour_def)
  note t1 = search_minimises_when_consistent [OF reachable_detour_state detour_build
      detour_consistent, of "[0, 0]"]
  from t1 [THEN conjunct1, rule_format, OF a, THEN conjunct2, THEN conjunct2, THEN conjunct2,
      THEN conjunct1, rule_format, OF one q]
  have e: "total eta (detour_graph 1) direct_route \<le> total eta (detour_graph 1) safe_detour" .
  have q2: "is_path cautious_graph [[0, 0], [2, 0]] \<and> hd [[0, 0], [2, 0 :: real]] = [0, 0] \<and>
      last [[0, 0], [2, 0 :: real]] = [2, 0]"
    using cautious_search(3) by simp
  note t2 = search_minimises_when_consistent [OF reachable_cautious_state cautious_build
      cautious_search(1), of "[0, 0]"]
  from t2 [THEN conjunct1, rule_format, OF cautious_search(2), THEN conjunct2, THEN conjunct2,
      THEN conjunct2, THEN conjunct2, rule_format, OF zero q2]
  have r: "total risk cautious_graph [[0, 0], [2, 0]] \<le> total risk cautious_graph [[0, 0], [2, 0]]" .
  from reachable_detour_state detour_build detour_consistent a q e reachable_cautious_state
    cautious_build cautious_search r
  show ?thesis by (simp del: is_path.simps total.simps)
qed

section \<open>Origin and destination at one vertex\<close>

lemma closed_same_dimension:
  assumes "closed_graph G" and "\<forall>n \<in> set (nodes G). length n = length t"
  shows "same_dimension G t"
  using assms by (auto simp: same_dimension_def closed_graph_def list_all_iff)

lemma astar_path_same_vertex:
  assumes "v \<in> set (nodes G)" and "same_dimension G v"
  shows "astar_path G v v = Path [v]"
  using assms by (simp add: astar_path_def)

lemma fixture_search_call:
  "before_search fixture_graph [0, 0] [0, 3 / 2] = Inr (Search [0, 0] [0, 0])"
  by (simp add: before_search_def fixture_nearest_origin fixture_nearest_destination)

lemma fixture_same_vertex_search: "astar_path fixture_graph [0, 0] [0, 0] = Path [[0, 0]]"
  by (rule astar_path_same_vertex) (simp_all add: same_dimension_def fixture_graph_def)

text \<open>
  C5, as stated, on the one-segment fixture with the origin \<open>(0, 0)\<close> and the
  destination \<open>(0, 1.5)\<close>, which both resolve to the vertex \<open>(0, 0)\<close>. After the two
  \<^verbatim>\<open>nearest_node\<close> calls \<^verbatim>\<open>compute_route\<close> has not returned: it calls the search with
  \<open>(0, 0)\<close> as source and as target, and the single-vertex route that it answers with
  is made of the path that the search returns. The test \<^verbatim>\<open>len(path) == 1\<close> comes after
  the search.
\<close>

theorem same_vertex_invokes_search:
  "route_graph fixture_state 1 10 (1 / 2) = (Inr fixture_graph, fixture_state_after_query) \<and>
   nearest_node fixture_graph [0, 0] = Inr ([0, 0], False) \<and>
   nearest_node fixture_graph [0, 3 / 2] = Inr ([0, 0], True) \<and>
   before_search fixture_graph [0, 0] [0, 3 / 2] = Inr (Search [0, 0] [0, 0]) \<and>
   astar_path fixture_graph [0, 0] [0, 0] = Path [[0, 0]] \<and>
   after_search fixture_graph (Path [[0, 0]]) = Inr (Some (close_warning [[0, 0]]), None) \<and>
   fst (compute_route astar_path fixture_state 1 [0, 0] [0, 3 / 2] 10 (1 / 2))
     = Inr (Some (close_warning [[0, 0]]), None)"
  by (simp add: fixture_route_graph fixture_nearest_origin fixture_nearest_destination
      fixture_search_call fixture_same_vertex_search compute_route_def route_on_def
      after_search_def assemble_route_def)

text \<open>
  C5, amended: whenever the origin and the destination resolve to the same vertex of the
  graph that \<^verbatim>\<open>compute_route\<close> works on, in a state that the service can reach and for
  query coordinates that are non-empty tuples, \<^verbatim>\<open>compute_route\<close> calls the search with
  that vertex as source and as target, the search returns the path of that one vertex, and
  \<^verbatim>\<open>compute_route\<close> returns the single-vertex path with \<open>eta = 0\<close>, \<open>risk = 0\<close>,
  \<open>confidence = 1\<close> and the advisory message, and no error message.
\<close>

theorem same_vertex_route:
  assumes "reachable st"
    and "route_graph st now hour alpha = (Inr G, st')"
    and "nearest_node G origin = Inr (v, far_origin)"
    and "nearest_node G destination = Inr (v, far_destination)"
    and "origin \<noteq> []"
  shows "before_search G origin destination = Inr (Search v v) \<and>
         astar_path G v v = Path [v] \<and>
         compute_route astar_path st now origin destination hour alpha =
           (Inr (Some \<lparr>route_path = [v], route_eta = 0, route_risk = 0, route_confidence = 1,
                       route_geometry = None,
                       route_warning = Some ''Origin and destination are extremely close''\<rparr>,
                 None), st')"
proof -
  have "fst (route_graph st now hour alpha) = Inr G" using assms(2) by simp
  with route_graph_sound(2) [OF reachable_sound [OF assms(1)]] have closed: "closed_graph G" .
  from nearest_node_length [OF assms(3)] assms(5) have v: "v \<noteq> []" by auto
  then have call: "before_search G origin destination = Inr (Search v v)"
    by (simp add: before_search_def assms(3,4))
  from nearest_node_lengths [OF assms(3)] nearest_node_length [OF assms(3)]
  have "\<forall>n \<in> set (nodes G). length n = length v" by simp
  with closed have "same_dimension G v" by (rule closed_same_dimension)
  with nearest_node_member [OF assms(3)] have found: "astar_path G v v = Path [v]"
    by (rule astar_path_same_vertex)
  from call found assms(2) show ?thesis
    by (simp add: compute_route_def route_on_def after_search_def assemble_route_def
        close_warning_def)
qed

theorem same_vertex_route_witness:
  "reachable fixture_state \<and>
   route_graph fixture_state 1 10 (1 / 2) = (Inr fixture_graph, fixture_state_after_query) \<and>
   nearest_node fixture_graph [0, 0] = Inr ([0, 0], False) \<and>
   nearest_node fixture_graph [0, 3 / 2] = Inr ([0, 0], True) \<and>
   [0, 0 :: real] \<noteq> [] \<and>
   compute_route astar_path fixture_state 1 [0, 0] [0, 3 / 2] 10 (1 / 2) =
     (Inr (Some \<lparr>route_path = [[0, 0]], route_eta = 0, route_risk = 0, route_confidence = 1,
                 route_geometry = None,
                 route_warning = Some ''Origin and destination are extremely close''\<rparr>,
           None), fixture_state_after_query)"
  using same_vertex_route [OF reachable_fixture_state fixture_route_graph fixture_nearest_origin
      fixture_nearest_destination]
  by (simp add: reachable_fixture_state fixture_route_graph fixture_nearest_origin
      fixture_nearest_destination)

end
